theory Spec2Isabelle
  imports
    Complex_Main
    "HOL-Library.Word"
    "HOL-Library.Signed_Division"
    "HOL-Library.Multiset"
    "HOL-Library.List_Lexorder"
    "HOL-Library.Char_ord"
    "HOL-Library.Product_Lexorder"
begin

section \<open>Data model (package taskdata)\<close>

text \<open>
  The released binaries are built for amd64 and arm64 only, so Go's \<open>int\<close> is a 64-bit
  two's complement integer: \<open>+\<close>, \<open>-\<close> and \<open>*\<close> wrap around, comparisons read the signed
  value (\<open>sint\<close>), and \<open>/\<close> truncates towards zero.
\<close>

type_synonym go_int = "64 word"

definition go_div :: "go_int \<Rightarrow> go_int \<Rightarrow> go_int" where
  "go_div a b = word_of_int (sint a sdiv sint b)"

record task =
  ID :: go_int
  Description :: string
  DueDate :: string
  Priority :: string
  Completed :: bool

record task_store =
  Tasks :: "task list"
  NextID :: go_int

text \<open>The values built by \<open>fmt.Errorf\<close>; the argument is the value printed in the message.\<close>

datatype error =
    InvalidPriority string
  | InvalidDateFormat string
  | InvalidDate string
  | TaskIDNotFound go_int
  | TaskNotFound

section \<open>Strings (package strings)\<close>

text \<open>
  A Go string is a byte sequence, here a \<open>char list\<close>. \<open>strings.ToLower\<close> maps \<open>A\<close>..\<open>Z\<close>
  to \<open>a\<close>..\<open>z\<close> when every byte of the string is ASCII. A string with a byte above 127
  is mapped rune by rune through the case tables of package \<open>unicode\<close>; these are not
  part of the repository, so what \<open>ToLower\<close> returns on such a string is the parameter
  \<open>lower\<close> of \<open>ToLower\<close> and of every function that calls it.
\<close>

definition lower_char :: "char \<Rightarrow> char" where
  "lower_char c =
     (if (65::nat) \<le> of_char c \<and> of_char c \<le> (90::nat)
      then char_of (of_char c + (32::nat)) else c)"

definition is_ascii :: "char \<Rightarrow> bool" where
  "is_ascii c = (of_char c < (128::nat))"

definition ToLower :: "(string \<Rightarrow> string) \<Rightarrow> string \<Rightarrow> string" where
  "ToLower lower s = (if list_all is_ascii s then map lower_char s else lower s)"

text \<open>
  White space is what \<open>unicode.IsSpace\<close> accepts: tab, line feed, vertical tab, form
  feed, carriage return and space, and in UTF-8 the two bytes of U+0085 and U+00A0 and
  the three bytes of U+1680, U+2000 to U+200A, U+2028, U+2029, U+202F, U+205F and
  U+3000. The first byte of each of these never occurs inside another rune, so they
  can be recognised on the bytes. \<open>space_width\<close> is the number of bytes of the white
  space rune at the head of a string and \<open>space_width_rev\<close> that of the one at the end of
  a string given in reverse, 0 if there is none.
\<close>

definition ascii_space :: "char \<Rightarrow> bool" where
  "ascii_space a = (of_char a \<in> {9::nat, 10, 11, 12, 13, 32})"

definition two_byte_space :: "char \<Rightarrow> char \<Rightarrow> bool" where
  "two_byte_space a b = (of_char a = (194::nat) \<and> of_char b \<in> {133::nat, 160})"

definition three_byte_space :: "char \<Rightarrow> char \<Rightarrow> char \<Rightarrow> bool" where
  "three_byte_space a b c =
     ((of_char a = (225::nat) \<and> of_char b = (154::nat) \<and> of_char c = (128::nat))
      \<or> (of_char a = (226::nat) \<and> of_char b = (128::nat)
          \<and> (((128::nat) \<le> of_char c \<and> of_char c \<le> (138::nat)) \<or> of_char c \<in> {168::nat, 169, 175}))
      \<or> (of_char a = (226::nat) \<and> of_char b = (129::nat) \<and> of_char c = (159::nat))
      \<or> (of_char a = (227::nat) \<and> of_char b = (128::nat) \<and> of_char c = (128::nat)))"

fun space_width :: "string \<Rightarrow> nat" where
  "space_width (a # b # c # r) =
     (if ascii_space a then 1 else if two_byte_space a b then 2
      else if three_byte_space a b c then 3 else 0)"
| "space_width [a, b] = (if ascii_space a then 1 else if two_byte_space a b then 2 else 0)"
| "space_width [a] = (if ascii_space a then 1 else 0)"
| "space_width [] = 0"

fun space_width_rev :: "string \<Rightarrow> nat" where
  "space_width_rev (c # b # a # r) =
     (if ascii_space c then 1 else if two_byte_space b c then 2
      else if three_byte_space a b c then 3 else 0)"
| "space_width_rev [c, b] = (if ascii_space c then 1 else if two_byte_space b c then 2 else 0)"
| "space_width_rev [c] = (if ascii_space c then 1 else 0)"
| "space_width_rev [] = 0"

text \<open>
  Dropping the white space runes at the head of a string; \<open>n\<close> counts the bytes still to
  drop of the rune being dropped. \<open>strings.TrimSpace\<close> does so at both ends.
\<close>

fun drop_space :: "(string \<Rightarrow> nat) \<Rightarrow> nat \<Rightarrow> string \<Rightarrow> string" where
  "drop_space width n [] = []"
| "drop_space width (Suc n) (c # cs) = drop_space width n cs"
| "drop_space width 0 (c # cs) =
     (case width (c # cs) of 0 \<Rightarrow> c # cs | Suc w \<Rightarrow> drop_space width w cs)"

definition TrimSpace :: "string \<Rightarrow> string" where
  "TrimSpace s = rev (drop_space space_width_rev 0 (rev (drop_space space_width 0 s)))"

text \<open>\<open>strings.ReplaceAll(s, "  ", " ")\<close>: one pass from the left over non-overlapping matches.\<close>

fun ReplaceAll_spaces :: "string \<Rightarrow> string" where
  "ReplaceAll_spaces (a # b # r) =
     (if a = CHR '' '' \<and> b = CHR '' '' then CHR '' '' # ReplaceAll_spaces r
      else a # ReplaceAll_spaces (b # r))"
| "ReplaceAll_spaces s = s"

fun HasPrefix :: "string \<Rightarrow> string \<Rightarrow> bool" where
  "HasPrefix s [] = True"
| "HasPrefix [] (p # ps) = False"
| "HasPrefix (c # cs) (p # ps) = (c = p \<and> HasPrefix cs ps)"

fun Contains :: "string \<Rightarrow> string \<Rightarrow> bool" where
  "Contains [] sub = (sub = [])"
| "Contains (c # cs) sub = (HasPrefix (c # cs) sub \<or> Contains cs sub)"

text \<open>
  \<open>strings.Fields\<close>: the maximal runs of bytes between white space runes, \<open>cur\<close> being
  the run read so far and \<open>n\<close> the bytes still to skip of a white space rune.
\<close>

fun fields_from :: "string \<Rightarrow> nat \<Rightarrow> string \<Rightarrow> string list" where
  "fields_from cur n [] = (if cur = [] then [] else [cur])"
| "fields_from cur (Suc n) (c # cs) = fields_from cur n cs"
| "fields_from cur 0 (c # cs) =
     (case space_width (c # cs) of
        0 \<Rightarrow> fields_from (cur @ [c]) 0 cs
      | Suc w \<Rightarrow> (if cur = [] then fields_from [] w cs else cur # fields_from [] w cs))"

definition Fields :: "string \<Rightarrow> string list" where
  "Fields s = fields_from [] 0 s"

definition is_digit :: "char \<Rightarrow> bool" where
  "is_digit c = ((48::nat) \<le> of_char c \<and> of_char c \<le> (57::nat))"

definition digit_val :: "char \<Rightarrow> int" where
  "digit_val c = of_char c - 48"

section \<open>Time (package time)\<close>

text \<open>
  A \<open>time.Time\<close> is an instant, in nanoseconds since the Unix epoch, together with its
  location. A \<open>*time.Location\<close> is given by its method \<open>lookup\<close>: for an instant in
  Unix seconds, the offset in seconds east of UTC in force then and the bounds of the
  period in which that offset is in force (daylight saving time starts and ends at such
  bounds). The zone data behind \<open>lookup\<close> come from the system and are not fixed here:
  every function from instants to periods is a location. \<open>Before\<close> and \<open>After\<close>
  compare instants; the calendar fields are read in the time's own location.
\<close>

record zone_period =
  zone_offset :: int
  zone_start :: int
  zone_end :: int

type_synonym go_location = "int \<Rightarrow> zone_period"

record gotime =
  unix_ns :: int
  Location :: go_location

text \<open>
  A location without transitions (\<open>time.FixedZone\<close>, and \<open>time.UTC\<close> with offset 0): one
  period from \<open>alpha\<close> to \<open>omega\<close>, the smallest and the largest 64-bit integer.
\<close>

definition FixedZone :: "int \<Rightarrow> go_location" where
  "FixedZone off = (\<lambda>sec. \<lparr>zone_offset = off, zone_start = - 9223372036854775808,
                                zone_end = 9223372036854775807\<rparr>)"

definition UTC :: go_location where
  "UTC = FixedZone 0"

definition ns_per_sec :: int where
  "ns_per_sec = 1000000000"

definition Before :: "gotime \<Rightarrow> gotime \<Rightarrow> bool" where
  "Before t u = (unix_ns t < unix_ns u)"

definition After :: "gotime \<Rightarrow> gotime \<Rightarrow> bool" where
  "After t u = (unix_ns t > unix_ns u)"

text \<open>Seconds on the wall clock of the time's location, and the day they fall in.\<close>

definition offset_at :: "gotime \<Rightarrow> int" where
  "offset_at t = zone_offset (Location t (unix_ns t div ns_per_sec))"

definition local_sec :: "gotime \<Rightarrow> int" where
  "local_sec t = unix_ns t div ns_per_sec + offset_at t"

definition local_day :: "gotime \<Rightarrow> int" where
  "local_day t = local_sec t div 86400"

text \<open>
  The proleptic Gregorian calendar, counted in days since 1970-01-01, on years that
  start in March (so that the leap day is the last day of its year). \<open>mp\<close> is the month
  counted from March, \<open>yoe\<close> the year within its 400-year era.
\<close>

definition days_before_year :: "int \<Rightarrow> int" where
  "days_before_year yoe = 365 * yoe + yoe div 4 - yoe div 100"

definition days_before_month :: "int \<Rightarrow> int" where
  "days_before_month mp = (153 * mp + 2) div 5"

definition days_from_civil :: "int \<Rightarrow> int \<Rightarrow> int \<Rightarrow> int" where
  "days_from_civil y m d =
     (let y' = (if m \<le> 2 then y - 1 else y);
          era = y' div 400;
          yoe = y' mod 400;
          mp = (m + 9) mod 12
      in era * 146097 + days_before_year yoe + days_before_month mp + (d - 1) - 719468)"

definition civil_from_days :: "int \<Rightarrow> int \<times> int \<times> int" where
  "civil_from_days z =
     (let era = (z + 719468) div 146097;
          doe = (z + 719468) mod 146097;
          n100 = min 3 (doe div 36524);
          r1 = doe - n100 * 36524;
          n4 = r1 div 1461;
          r2 = r1 mod 1461;
          n1 = min 3 (r2 div 365);
          doy = r2 - n1 * 365;
          yoe = n100 * 100 + n4 * 4 + n1;
          mp = (5 * doy + 2) div 153;
          d = doy - days_before_month mp + 1;
          m = (if mp < 10 then mp + 3 else mp - 9)
      in (era * 400 + yoe + (if m \<le> 2 then 1 else 0), m, d))"

definition Year :: "gotime \<Rightarrow> int" where
  "Year t = fst (civil_from_days (local_day t))"

definition Month :: "gotime \<Rightarrow> int" where
  "Month t = fst (snd (civil_from_days (local_day t)))"

definition Day :: "gotime \<Rightarrow> int" where
  "Day t = snd (snd (civil_from_days (local_day t)))"

definition Hour :: "gotime \<Rightarrow> int" where
  "Hour t = (local_sec t mod 86400) div 3600"

definition Minute :: "gotime \<Rightarrow> int" where
  "Minute t = (local_sec t mod 3600) div 60"

definition Second :: "gotime \<Rightarrow> int" where
  "Second t = local_sec t mod 60"

definition Nanosecond :: "gotime \<Rightarrow> int" where
  "Nanosecond t = unix_ns t mod ns_per_sec"

text \<open>
  \<open>time.Date\<close> first reads the wall clock as if it were UTC and then looks for the zone
  offset to take off: the offset in force at that instant, unless the instant so
  corrected falls outside the period of that offset, in which case the offset in force
  at the corrected instant is taken.
\<close>

definition resolve_offset :: "go_location \<Rightarrow> int \<Rightarrow> int" where
  "resolve_offset loc unix =
     (let p = loc unix
      in if zone_offset p \<noteq> 0
         then (let utc = unix - zone_offset p
               in if utc < zone_start p \<or> utc \<ge> zone_end p then zone_offset (loc utc)
                  else zone_offset p)
         else 0)"

text \<open>
  \<open>time.Date(year, month, day, hour, min, sec, nsec, loc)\<close>: a month outside 1..12 is
  carried into the year and nanoseconds outside their range into the seconds; days,
  hours, minutes and seconds outside their range carry over by plain addition.
\<close>

definition time_Date ::
  "int \<Rightarrow> int \<Rightarrow> int \<Rightarrow> int \<Rightarrow> int \<Rightarrow> int \<Rightarrow> int \<Rightarrow> go_location \<Rightarrow> gotime" where
  "time_Date year month day hour minute sec nsec loc =
     (let y = year + (month - 1) div 12;
          m = (month - 1) mod 12 + 1;
          sec' = sec + nsec div ns_per_sec;
          nsec' = nsec mod ns_per_sec;
          unix = days_from_civil y m day * 86400 + hour * 3600 + minute * 60 + sec';
          unix' = unix - resolve_offset loc unix
      in \<lparr>unix_ns = unix' * ns_per_sec + nsec', Location = loc\<rparr>)"

definition AddDate :: "gotime \<Rightarrow> int \<Rightarrow> int \<Rightarrow> int \<Rightarrow> gotime" where
  "AddDate t years months days =
     time_Date (Year t + years) (Month t + months) (Day t + days)
       (Hour t) (Minute t) (Second t) (Nanosecond t) (Location t)"

definition isLeap :: "int \<Rightarrow> bool" where
  "isLeap year = (year mod 4 = 0 \<and> (year mod 100 \<noteq> 0 \<or> year mod 400 = 0))"

definition daysIn :: "int \<Rightarrow> int \<Rightarrow> int" where
  "daysIn m year =
     (if m = 2 then (if isLeap year then 29 else 28)
      else if m = 4 \<or> m = 6 \<or> m = 9 \<or> m = 11 then 30 else 31)"

text \<open>
  \<open>time.Parse("2006-01-02", s)\<close>: four digits, a dash, two digits, a dash, two digits
  and nothing else; the month must lie in 1..12 and the day in the month. The result
  is midnight of that day in UTC.
\<close>

definition parse_date :: "string \<Rightarrow> gotime option" where
  "parse_date s =
     (case s of
        [y1, y2, y3, y4, s1, m1, m2, s2, d1, d2] \<Rightarrow>
          (if is_digit y1 \<and> is_digit y2 \<and> is_digit y3 \<and> is_digit y4
              \<and> s1 = CHR ''-'' \<and> is_digit m1 \<and> is_digit m2
              \<and> s2 = CHR ''-'' \<and> is_digit d1 \<and> is_digit d2
           then
             (let year = digit_val y1 * 1000 + digit_val y2 * 100 + digit_val y3 * 10 + digit_val y4;
                  month = digit_val m1 * 10 + digit_val m2;
                  day = digit_val d1 * 10 + digit_val d2
              in if month \<le> 0 \<or> 12 < month then None
                 else if day < 1 \<or> daysIn month year < day then None
                 else Some (time_Date year month day 0 0 0 0 UTC))
           else None)
      | _ \<Rightarrow> None)"

section \<open>Validation and the store operations\<close>

definition validPriorities :: "string list" where
  "validPriorities = [''low'', ''L'', ''N'', ''normal'', ''H'', ''high'']"

fun priority_loop :: "string list \<Rightarrow> string \<Rightarrow> bool" where
  "priority_loop [] p = False"
| "priority_loop (valid # rest) p = (if p = valid then True else priority_loop rest p)"

definition ValidatePriority :: "(string \<Rightarrow> string) \<Rightarrow> string \<Rightarrow> error option" where
  "ValidatePriority lower priority =
     (let p = ToLower lower priority
      in if priority_loop validPriorities p then None else Some (InvalidPriority p))"

text \<open>The regular expression \<open>^\d{4}-\d{2}-\d{2}$\<close>.\<close>

definition dateRegex_match :: "string \<Rightarrow> bool" where
  "dateRegex_match s =
     (case s of
        [y1, y2, y3, y4, s1, m1, m2, s2, d1, d2] \<Rightarrow>
          is_digit y1 \<and> is_digit y2 \<and> is_digit y3 \<and> is_digit y4 \<and> s1 = CHR ''-''
          \<and> is_digit m1 \<and> is_digit m2 \<and> s2 = CHR ''-'' \<and> is_digit d1 \<and> is_digit d2
      | _ \<Rightarrow> False)"

definition ValidateDate :: "string \<Rightarrow> error option" where
  "ValidateDate date =
     (if date = [] then None
      else if \<not> dateRegex_match date then Some (InvalidDateFormat date)
      else (case parse_date date of
              None \<Rightarrow> Some (InvalidDate date)
            | Some _ \<Rightarrow> None))"

text \<open>
  Methods on \<open>*TaskStore\<close> mutate the store: each is a function from the store to its
  result and the store afterwards.
\<close>

definition AddTask ::
  "(string \<Rightarrow> string) \<Rightarrow> task_store \<Rightarrow> string \<Rightarrow> string \<Rightarrow> string \<Rightarrow> (error + task) \<times> task_store" where
  "AddTask lower store description dueDate priority =
     (case ValidateDate dueDate of
        Some err \<Rightarrow> (Inl err, store)
      | None \<Rightarrow>
          (case ValidatePriority lower priority of
             Some err \<Rightarrow> (Inl err, store)
           | None \<Rightarrow>
               (let t = \<lparr>ID = NextID store, Description = description, DueDate = dueDate,
                         Priority = ToLower lower priority, Completed = False\<rparr>
                in (Inr t, store\<lparr>Tasks := Tasks store @ [t], NextID := NextID store + 1\<rparr>))))"

text \<open>\<open>for i, task := range store.Tasks\<close> up to the first task with the given ID.\<close>

fun index_of_id :: "task list \<Rightarrow> go_int \<Rightarrow> nat option" where
  "index_of_id [] id' = None"
| "index_of_id (t # ts) id' =
     (if ID t = id' then Some 0 else map_option Suc (index_of_id ts id'))"

definition CompleteTask :: "task_store \<Rightarrow> go_int \<Rightarrow> error option \<times> task_store" where
  "CompleteTask store id' =
     (case index_of_id (Tasks store) id' of
        Some i \<Rightarrow> (None, store\<lparr>Tasks := (Tasks store)[i := (Tasks store ! i)\<lparr>Completed := True\<rparr>]\<rparr>)
      | None \<Rightarrow> (Some (TaskIDNotFound id'), store))"

definition updateTaskCompletion :: "task_store \<Rightarrow> go_int \<Rightarrow> bool \<Rightarrow> error option \<times> task_store" where
  "updateTaskCompletion store id' completed =
     (case index_of_id (Tasks store) id' of
        Some i \<Rightarrow> (None, store\<lparr>Tasks := (Tasks store)[i := (Tasks store ! i)\<lparr>Completed := completed\<rparr>]\<rparr>)
      | None \<Rightarrow> (Some TaskNotFound, store))"

definition deleteTaskByID :: "task_store \<Rightarrow> go_int \<Rightarrow> bool \<times> task_store" where
  "deleteTaskByID store id' =
     (case index_of_id (Tasks store) id' of
        Some i \<Rightarrow> (True, store\<lparr>Tasks := take i (Tasks store) @ drop (i + 1) (Tasks store)\<rparr>)
      | None \<Rightarrow> (False, store))"

section \<open>The overdue and due-soon classifiers\<close>

text \<open>The list view (\<open>isOverdue\<close>, \<open>isDueSoon\<close>, \<open>getDueSoonTasks\<close>).\<close>

definition isOverdue :: "task \<Rightarrow> gotime \<Rightarrow> bool" where
  "isOverdue t now =
     (if Completed t \<or> DueDate t = [] then False
      else (case parse_date (DueDate t) of
              None \<Rightarrow> False
            | Some dueDate \<Rightarrow>
                (let today = time_Date (Year now) (Month now) (Day now) 0 0 0 0 (Location now);
                     taskDate = time_Date (Year dueDate) (Month dueDate) (Day dueDate) 0 0 0 0
                                  (Location dueDate)
                 in Before taskDate today)))"

definition isDueSoon :: "task \<Rightarrow> gotime \<Rightarrow> bool" where
  "isDueSoon t now =
     (if Completed t \<or> DueDate t = [] then False
      else (case parse_date (DueDate t) of
              None \<Rightarrow> False
            | Some dueDate \<Rightarrow>
                (let threeDaysFromNow = AddDate now 0 0 3
                 in \<not> Before dueDate now \<and> \<not> After dueDate threeDaysFromNow)))"

fun getDueSoonTasks :: "task list \<Rightarrow> gotime \<Rightarrow> task list" where
  "getDueSoonTasks [] now = []"
| "getDueSoonTasks (t # ts) now =
     (if \<not> Completed t \<and> isDueSoon t now then t # getDueSoonTasks ts now
      else getDueSoonTasks ts now)"

text \<open>The mark view (\<open>isTaskOverdue\<close>, \<open>isTaskDueToday\<close>).\<close>

definition isTaskOverdue :: "task \<Rightarrow> gotime \<Rightarrow> bool" where
  "isTaskOverdue t now =
     (if Completed t \<or> DueDate t = [] then False
      else (case parse_date (DueDate t) of
              None \<Rightarrow> False
            | Some dueDate \<Rightarrow>
                (let today = time_Date (Year now) (Month now) (Day now) 0 0 0 0 (Location now);
                     taskDate = time_Date (Year dueDate) (Month dueDate) (Day dueDate) 0 0 0 0
                                  (Location dueDate)
                 in Before taskDate today)))"

definition YearDay :: "gotime \<Rightarrow> int" where
  "YearDay t = local_day t - days_from_civil (Year t) 1 1 + 1"

definition isTaskDueToday :: "task \<Rightarrow> gotime \<Rightarrow> bool" where
  "isTaskDueToday t now =
     (if DueDate t = [] then False
      else (case parse_date (DueDate t) of
              None \<Rightarrow> False
            | Some dueDate \<Rightarrow> Year dueDate = Year now \<and> YearDay dueDate = YearDay now))"

text \<open>The delete view (\<open>getOverdueTasks\<close>); \<open>now\<close> is what \<open>time.Now()\<close> returned.\<close>

fun getOverdueTasks :: "task list \<Rightarrow> gotime \<Rightarrow> task list" where
  "getOverdueTasks [] now = []"
| "getOverdueTasks (t # ts) now =
     (if Completed t \<or> DueDate t = [] then getOverdueTasks ts now
      else (case parse_date (DueDate t) of
              None \<Rightarrow> getOverdueTasks ts now
            | Some dueDate \<Rightarrow>
                (if Before dueDate now then t # getOverdueTasks ts now
                 else getOverdueTasks ts now)))"

section \<open>The health score (mark view)\<close>

definition calculateTaskHealthScore :: "go_int \<Rightarrow> go_int \<Rightarrow> go_int \<Rightarrow> go_int \<Rightarrow> go_int" where
  "calculateTaskHealthScore total' completed overdue highPriorityPending =
     (if total' = 0 then 100
      else
        (let completionBonus = go_div (completed * 100) total';
             overduePenalty = overdue * 20;
             highPriorityPenalty = highPriorityPending * 10;
             score = completionBonus - overduePenalty - highPriorityPenalty;
             score = (if sint score < 0 then 0 else score);
             score = (if sint score > 100 then 100 else score)
         in score))"

text \<open>The counters of \<open>analyzeTaskPatterns\<close>, and its loop over the tasks.\<close>

record counters =
  completedTasks :: go_int
  overdueTasks :: go_int
  todayTasks :: go_int
  highPriorityPending :: go_int

fun count_loop :: "task list \<Rightarrow> gotime \<Rightarrow> counters \<Rightarrow> counters" where
  "count_loop [] now c = c"
| "count_loop (t # ts) now c =
     (if Completed t then count_loop ts now (c\<lparr>completedTasks := completedTasks c + 1\<rparr>)
      else
        (let c1 = (if Priority t = ''high''
                   then c\<lparr>highPriorityPending := highPriorityPending c + 1\<rparr> else c);
             c2 = (if isTaskOverdue t now then c1\<lparr>overdueTasks := overdueTasks c1 + 1\<rparr> else c1);
             c3 = (if isTaskDueToday t now then c2\<lparr>todayTasks := todayTasks c2 + 1\<rparr> else c2)
         in count_loop ts now c3))"

text \<open>The health score that \<open>analyzeTaskPatterns\<close> prints.\<close>

definition analyzeTaskPatterns :: "task_store \<Rightarrow> gotime \<Rightarrow> go_int" where
  "analyzeTaskPatterns store now =
     (let totalTasks = of_nat (length (Tasks store));
          c = count_loop (Tasks store) now
                \<lparr>completedTasks = 0, overdueTasks = 0, todayTasks = 0, highPriorityPending = 0\<rparr>
      in calculateTaskHealthScore totalTasks (completedTasks c) (overdueTasks c)
           (highPriorityPending c))"

section \<open>Filtering and ordering (list view)\<close>

record filterOptions =
  timeFilter :: string
  priority :: string
  showCompleted :: bool
  showPending :: bool
  showOverdue :: bool
  showDueSoon :: bool
  showNoDate :: bool

definition isSameDay :: "gotime \<Rightarrow> gotime \<Rightarrow> bool" where
  "isSameDay date1 date2 =
     (Year date1 = Year date2 \<and> Month date1 = Month date2 \<and> Day date1 = Day date2)"

definition isInWeekRange :: "gotime \<Rightarrow> gotime \<Rightarrow> bool" where
  "isInWeekRange date now =
     (let startOfRange = time_Date (Year now) (Month now) (Day now) 0 0 0 0 (Location now);
          endOfRange = AddDate startOfRange 0 0 6;
          normalizedDate = time_Date (Year date) (Month date) (Day date) 0 0 0 0 (Location date)
      in \<not> Before normalizedDate startOfRange \<and> \<not> After normalizedDate endOfRange)"

definition isSameMonth :: "gotime \<Rightarrow> gotime \<Rightarrow> bool" where
  "isSameMonth date1 date2 = (Year date1 = Year date2 \<and> Month date1 = Month date2)"

definition matchesTimeFilter :: "task \<Rightarrow> string \<Rightarrow> gotime \<Rightarrow> bool" where
  "matchesTimeFilter t tf now =
     (if tf = ''all'' then True
      else if DueDate t = [] then True
      else (case parse_date (DueDate t) of
              None \<Rightarrow> False
            | Some dueDate \<Rightarrow>
                (if tf = ''today'' then isSameDay dueDate now
                 else if tf = ''week'' then isInWeekRange dueDate now
                 else if tf = ''month'' then isSameMonth dueDate now
                 else True)))"

definition matchesPriority :: "(string \<Rightarrow> string) \<Rightarrow> task \<Rightarrow> string \<Rightarrow> bool" where
  "matchesPriority lower t p =
     (let p = ToLower lower p;
          p = (if p = ''h'' then ''high'' else if p = ''n'' then ''normal''
               else if p = ''l'' then ''low'' else p)
      in Priority t = p)"

text \<open>The loop of \<open>filterTasks\<close>: each \<open>continue\<close> drops the task.\<close>

fun filter_loop :: "(string \<Rightarrow> string) \<Rightarrow> task list \<Rightarrow> filterOptions \<Rightarrow> gotime \<Rightarrow> task list" where
  "filter_loop lower [] opts now = []"
| "filter_loop lower (t # ts) opts now =
     (if showOverdue opts \<and> \<not> isOverdue t now then filter_loop lower ts opts now
      else if showDueSoon opts \<and> \<not> isDueSoon t now then filter_loop lower ts opts now
      else if showNoDate opts \<and> DueDate t \<noteq> [] then filter_loop lower ts opts now
      else if \<not> showOverdue opts \<and> \<not> showDueSoon opts \<and> \<not> showNoDate opts
              \<and> \<not> matchesTimeFilter t (timeFilter opts) now then filter_loop lower ts opts now
      else if priority opts \<noteq> [] \<and> \<not> matchesPriority lower t (priority opts) then filter_loop lower ts opts now
      else if showCompleted opts \<and> \<not> showPending opts \<and> \<not> Completed t then filter_loop lower ts opts now
      else if \<not> (showCompleted opts \<and> \<not> showPending opts)
              \<and> showPending opts \<and> \<not> showCompleted opts \<and> Completed t then filter_loop lower ts opts now
      else t # filter_loop lower ts opts now)"

text \<open>The map literal \<open>priorityOrder\<close>; a key that is absent reads as 0.\<close>

definition priorityOrder :: "string \<Rightarrow> int" where
  "priorityOrder p =
     (case map_of [(''high'', 3), (''normal'', 2), (''low'', 1)] p of
        None \<Rightarrow> 0
      | Some n \<Rightarrow> n)"

text \<open>The \<open>less\<close> function handed to \<open>sort.Slice\<close>; strings compare byte by byte.\<close>

definition taskLess :: "task \<Rightarrow> task \<Rightarrow> bool" where
  "taskLess a b =
     (if Completed a \<noteq> Completed b then \<not> Completed a
      else if priorityOrder (Priority a) \<noteq> priorityOrder (Priority b)
        then priorityOrder (Priority a) > priorityOrder (Priority b)
      else if DueDate a \<noteq> [] \<and> DueDate b \<noteq> [] then DueDate a < DueDate b
      else if DueDate a \<noteq> [] then True
      else False)"

text \<open>
  \<open>sort.Slice\<close> belongs to the standard library and is a parameter of \<open>filterTasks\<close>.
  Its contract: when the less function is a strict weak ordering, the result is a rearrangement
  of the slice in which no element is less than one that stands before it. The sort
  is not stable, so nothing more is known about elements that are equivalent.
\<close>

definition strict_weak_order :: "('a \<Rightarrow> 'a \<Rightarrow> bool) \<Rightarrow> bool" where
  "strict_weak_order lt =
     ((\<forall>a. \<not> lt a a)
      \<and> (\<forall>a b c. lt a b \<and> lt b c \<longrightarrow> lt a c)
      \<and> (\<forall>a b c. \<not> lt a b \<and> \<not> lt b c \<longrightarrow> \<not> lt a c))"

definition sort_Slice_contract :: "(('a \<Rightarrow> 'a \<Rightarrow> bool) \<Rightarrow> 'a list \<Rightarrow> 'a list) \<Rightarrow> bool" where
  "sort_Slice_contract srt =
     (\<forall>lt xs. strict_weak_order lt \<longrightarrow>
        mset (srt lt xs) = mset xs \<and> sorted_wrt (\<lambda>a b. \<not> lt b a) (srt lt xs))"

text \<open>\<open>filterTasks\<close>; \<open>now\<close> is what \<open>time.Now()\<close> returned.\<close>

definition filterTasks ::
  "((task \<Rightarrow> task \<Rightarrow> bool) \<Rightarrow> task list \<Rightarrow> task list) \<Rightarrow> (string \<Rightarrow> string)
     \<Rightarrow> task list \<Rightarrow> filterOptions \<Rightarrow> gotime \<Rightarrow> task list" where
  "filterTasks sort_Slice lower tasks opts now =
     sort_Slice taskLess (filter_loop lower tasks opts now)"



section \<open>Duplicates and similarity (delete view)\<close>

definition normalize_description :: "(string \<Rightarrow> string) \<Rightarrow> string \<Rightarrow> string" where
  "normalize_description lower d = ReplaceAll_spaces (ToLower lower (TrimSpace d))"

definition shouldKeepExisting :: "task \<Rightarrow> task \<Rightarrow> bool" where
  "shouldKeepExisting existing new =
     (if DueDate existing \<noteq> [] \<and> DueDate new = [] then True
      else if DueDate existing = [] \<and> DueDate new \<noteq> [] then False
      else priorityOrder (Priority existing) \<ge> priorityOrder (Priority new))"

text \<open>The loop of \<open>findDuplicateTasks\<close>, with the map \<open>seen\<close> and the slice \<open>duplicates\<close>.\<close>

fun duplicates_loop ::
  "(string \<Rightarrow> string) \<Rightarrow> task list \<Rightarrow> (string \<rightharpoonup> task) \<Rightarrow> task list \<Rightarrow> task list" where
  "duplicates_loop lower [] seen duplicates = duplicates"
| "duplicates_loop lower (t # ts) seen duplicates =
     (if Completed t then duplicates_loop lower ts seen duplicates
      else
        (let normalized = normalize_description lower (Description t)
         in (case seen normalized of
               Some existing \<Rightarrow>
                 (if shouldKeepExisting existing t
                  then duplicates_loop lower ts seen (duplicates @ [t])
                  else duplicates_loop lower ts (seen(normalized \<mapsto> t)) (duplicates @ [existing]))
             | None \<Rightarrow> duplicates_loop lower ts (seen(normalized \<mapsto> t)) duplicates)))"

definition findDuplicateTasks :: "(string \<Rightarrow> string) \<Rightarrow> task list \<Rightarrow> task list" where
  "findDuplicateTasks lower tasks = duplicates_loop lower tasks Map.empty []"

text \<open>
  \<open>calculateSimilarityScore\<close> returns a \<open>float64\<close>: 1.0, 0.8, the product
  \<open>float64(matches) / float64(len(patternWords)) * 0.6\<close>, or 0.0. Floating-point
  arithmetic is not modelled: the result here says which of the four it is and, for
  the product, carries the two integers it is computed from. Two calls with equal
  results here return the same \<open>float64\<close>.
\<close>

datatype similarity =
    Score_exact
  | Score_contains
  | Score_words nat nat
  | Score_none

fun word_found :: "string list \<Rightarrow> string \<Rightarrow> bool" where
  "word_found [] pw = False"
| "word_found (tw # tws) pw =
     (if HasPrefix tw pw \<or> Contains tw pw then True else word_found tws pw)"

fun count_matches :: "string list \<Rightarrow> string list \<Rightarrow> nat" where
  "count_matches [] ws = 0"
| "count_matches (pw # pws) ws =
     (if word_found ws pw then Suc (count_matches pws ws) else count_matches pws ws)"

definition calculateSimilarityScore :: "(string \<Rightarrow> string) \<Rightarrow> string \<Rightarrow> string \<Rightarrow> similarity" where
  "calculateSimilarityScore lower text0 pattern0 =
     (let txt = ToLower lower text0;
          pattern = ToLower lower pattern0
      in if txt = pattern then Score_exact
         else if Contains txt pattern then Score_contains
         else
           (let ws = Fields txt;
                patternWords = Fields pattern;
                matches = count_matches patternWords ws
            in if length patternWords > 0
               then Score_words matches (length patternWords)
               else Score_none))"

section \<open>Sequences of store operations\<close>

text \<open>
  The operations that change a store, and the store a command starts from when no data
  file exists yet (\<open>LoadTasks\<close>).
\<close>

datatype operation =
    OpAddTask string string string
  | OpDeleteTaskByID go_int
  | OpCompleteTask go_int
  | OpUpdateTaskCompletion go_int bool

fun apply_operation :: "(string \<Rightarrow> string) \<Rightarrow> task_store \<Rightarrow> operation \<Rightarrow> task_store" where
  "apply_operation lower s (OpAddTask description dueDate prio) =
     snd (AddTask lower s description dueDate prio)"
| "apply_operation lower s (OpDeleteTaskByID i) = snd (deleteTaskByID s i)"
| "apply_operation lower s (OpCompleteTask i) = snd (CompleteTask s i)"
| "apply_operation lower s (OpUpdateTaskCompletion i c) = snd (updateTaskCompletion s i c)"

definition run_operations :: "(string \<Rightarrow> string) \<Rightarrow> operation list \<Rightarrow> task_store \<Rightarrow> task_store" where
  "run_operations lower ops s = foldl (apply_operation lower) s ops"

definition empty_store :: task_store where
  "empty_store = \<lparr>Tasks = [], NextID = 1\<rparr>"

fun is_add :: "operation \<Rightarrow> bool" where
  "is_add (OpAddTask _ _ _) = True"
| "is_add _ = False"

section \<open>Properties stated about the program\<close>

text \<open>All task IDs differ, and each is below the counter (as signed integers).\<close>

definition store_inv :: "task_store \<Rightarrow> bool" where
  "store_inv s =
     (distinct (map ID (Tasks s)) \<and> list_all (\<lambda>t. sint (ID t) < sint (NextID s)) (Tasks s))"

text \<open>
  \<open>s'\<close> is \<open>s\<close> except for the \<open>Completed\<close> field of the task at index \<open>i\<close>, which is
  \<open>c\<close>.
\<close>

definition only_completed_changed :: "task_store \<Rightarrow> nat \<Rightarrow> bool \<Rightarrow> task_store \<Rightarrow> bool" where
  "only_completed_changed s i c s' =
     (NextID s' = NextID s
      \<and> length (Tasks s') = length (Tasks s)
      \<and> list_all (\<lambda>j. j = i \<or> Tasks s' ! j = Tasks s ! j) [0..<length (Tasks s)]
      \<and> ID (Tasks s' ! i) = ID (Tasks s ! i)
      \<and> Description (Tasks s' ! i) = Description (Tasks s ! i)
      \<and> DueDate (Tasks s' ! i) = DueDate (Tasks s ! i)
      \<and> Priority (Tasks s' ! i) = Priority (Tasks s ! i)
      \<and> Completed (Tasks s' ! i) = c)"



text \<open>
  What \<open>findDuplicateTasks\<close> keeps and reports, told from the task list alone. The key of
  a task is its normalised description. Among the pending tasks with key \<open>k\<close>, taken in
  their order, one task is kept at any time: the first one, until a later one is
  preferred to it by \<open>shouldKeepExisting\<close>. The task at index \<open>i\<close> causes a report when it
  is pending and a task with its key is kept from the tasks before it: it is reported
  itself if the kept one is to be kept, otherwise the kept one is reported.
\<close>

definition task_key :: "(string \<Rightarrow> string) \<Rightarrow> task \<Rightarrow> string" where
  "task_key lower t = normalize_description lower (Description t)"

fun keep_step :: "task option \<Rightarrow> task \<Rightarrow> task option" where
  "keep_step None t = Some t"
| "keep_step (Some e) t = Some (if shouldKeepExisting e t then e else t)"

definition kept_from :: "(string \<Rightarrow> string) \<Rightarrow> task option \<Rightarrow> string \<Rightarrow> task list \<Rightarrow> task option" where
  "kept_from lower start k ts =
     foldl keep_step start (filter (\<lambda>t. \<not> Completed t \<and> task_key lower t = k) ts)"

definition reported_from ::
  "(string \<Rightarrow> string) \<Rightarrow> (string \<rightharpoonup> task) \<Rightarrow> task list \<Rightarrow> nat \<Rightarrow> task list" where
  "reported_from lower seen ts i =
     (let t = ts ! i
      in if Completed t then []
         else (case kept_from lower (seen (task_key lower t)) (task_key lower t) (take i ts) of
                 None \<Rightarrow> []
               | Some e \<Rightarrow> [if shouldKeepExisting e t then t else e]))"

definition reported_at :: "(string \<Rightarrow> string) \<Rightarrow> task list \<Rightarrow> nat \<Rightarrow> task list" where
  "reported_at lower ts i = reported_from lower Map.empty ts i"

section \<open>Sample values\<close>

text \<open>
  A value for the parameter \<open>lower\<close> where it has to be given. The samples are ASCII
  strings, on which \<open>ToLower\<close> does not call it.
\<close>

definition ascii_only :: "string \<Rightarrow> string" where
  "ascii_only s = s"

text \<open>
  The location of New York by the rules of 2024 and 2025: five hours west of UTC from
  2024-11-03 06:00 UTC to 2025-03-09 07:00 UTC, four hours west in the daylight saving
  periods before (from 2024-03-10 07:00 UTC) and after (to 2025-11-02 06:00 UTC).
\<close>

definition new_york :: go_location where
  "new_york sec =
     (if sec < 1730613600
        then \<lparr>zone_offset = - 14400, zone_start = 1710054000, zone_end = 1730613600\<rparr>
      else if sec < 1741503600
        then \<lparr>zone_offset = - 18000, zone_start = 1730613600, zone_end = 1741503600\<rparr>
      else \<lparr>zone_offset = - 14400, zone_start = 1741503600, zone_end = 1762063200\<rparr>)"

text \<open>
  A pending task due on 2025-01-10, and four times: noon of that day in New York, noon
  of that day in UTC, 2025-01-08 13:00 in a zone one hour east of UTC, and 2025-03-08
  19:30 in New York, the evening before daylight saving time starts.
\<close>

definition sample_task :: task where
  "sample_task = \<lparr>ID = 1, Description = ''file the report'', DueDate = ''2025-01-10'',
                  Priority = ''high'', Completed = False\<rparr>"

definition noon_new_york :: gotime where
  "noon_new_york = \<lparr>unix_ns = 1736528400000000000, Location = new_york\<rparr>"

definition noon_utc :: gotime where
  "noon_utc = \<lparr>unix_ns = 1736510400000000000, Location = UTC\<rparr>"

definition jan_8 :: gotime where
  "jan_8 = \<lparr>unix_ns = 1736337600000000000, Location = FixedZone 3600\<rparr>"

definition march_8_evening :: gotime where
  "march_8_evening = \<lparr>unix_ns = 1741480200000000000, Location = new_york\<rparr>"

definition store_two :: task_store where
  "store_two =
     \<lparr>Tasks = [sample_task, sample_task\<lparr>ID := 2, Description := ''water the plants''\<rparr>,
               sample_task\<lparr>ID := 2, Description := ''a second task 2''\<rparr>],
      NextID = 3\<rparr>"

definition store_health :: task_store where
  "store_health =
     \<lparr>Tasks = [sample_task\<lparr>Completed := True\<rparr>, sample_task\<lparr>ID := 2, Completed := True\<rparr>,
               sample_task\<lparr>ID := 3, Completed := True\<rparr>,
               sample_task\<lparr>ID := 4, DueDate := [], Priority := ''high''\<rparr>,
               sample_task\<lparr>ID := 5, DueDate := ''2030-01-01'', Priority := ''low''\<rparr>],
      NextID = 6\<rparr>"

text \<open>
  A run on which the counter wraps: \<open>2 ^ 63 - 2\<close> times a task is added and deleted
  again, then one more task is added.
\<close>

definition add_then_delete :: "nat \<Rightarrow> operation list" where
  "add_then_delete k = [OpAddTask ''t'' [] ''low'', OpDeleteTaskByID (of_nat (Suc k))]"

definition wrapping_run :: "operation list" where
  "wrapping_run =
     concat (map add_then_delete [0..<9223372036854775806]) @ [OpAddTask ''t'' [] ''low'']"

definition short_run :: "operation list" where
  "short_run =
     [OpAddTask ''buy milk'' [] ''low'', OpAddTask ''file the report'' ''2025-01-10'' ''HIGH'',
      OpAddTask ''no such day'' ''2025-02-30'' ''low'', OpCompleteTask 1,
      OpDeleteTaskByID 1, OpAddTask ''call home'' [] ''normal'', OpUpdateTaskCompletion 3 True]"

text \<open>
  The key by which \<open>taskLess\<close> compares: completion status, priority (highest first),
  absence of a due date, and the due date.
\<close>

definition sort_key :: "task \<Rightarrow> bool \<times> int \<times> bool \<times> string" where
  "sort_key t = (Completed t, - priorityOrder (Priority t), DueDate t = [], DueDate t)"



text \<open>
  A pending task of normal priority without due date, given by its ID and description;
  and the normalised descriptions of the pending tasks of a list, in their order.
\<close>

definition described :: "go_int \<Rightarrow> string \<Rightarrow> task" where
  "described i d = \<lparr>ID = i, Description = d, DueDate = [], Priority = ''normal'', Completed = False\<rparr>"

definition pending_keys :: "(string \<Rightarrow> string) \<Rightarrow> task list \<Rightarrow> string list" where
  "pending_keys lower ts = map (task_key lower) (filter (\<lambda>t. \<not> Completed t) ts)"

text \<open>The zone offset that \<open>time.Date\<close> takes off for midnight of the day of \<open>now\<close>.\<close>

definition today_offset :: "gotime \<Rightarrow> int" where
  "today_offset now = resolve_offset (Location now) (local_day now * 86400)"

text \<open>
  A request for the overdue tasks of this week (\<open>todo list --overdue --week\<close>), and a
  pending task due on 2025-01-03, a week before the sample times.
\<close>

definition overdue_this_week :: filterOptions where
  "overdue_this_week =
     \<lparr>timeFilter = ''week'', priority = [], showCompleted = False, showPending = False,
      showOverdue = True, showDueSoon = False, showNoDate = False\<rparr>"

definition week_old_task :: task where
  "week_old_task = sample_task\<lparr>ID := 7, DueDate := ''2025-01-03''\<rparr>"

text \<open>
  Four tasks, three of them with the normalised description \<open>buy milk\<close>; the third has a
  due date.
\<close>

definition milk_list :: "task list" where
  "milk_list =
     [described 1 ''Buy milk'',
      described 2 ''walk dog'',
      (described 3 '' buy milk'')\<lparr>DueDate := ''2025-01-10''\<rparr>,
      described 4 ''BUY MILK'']"

section \<open>The calendar\<close>

lemma civil_parts:
  fixes z :: int
  defines "doe \<equiv> (z + 719468) mod 146097"
  defines "n100 \<equiv> min 3 (doe div 36524)"
  defines "r1 \<equiv> doe - n100 * 36524"
  defines "n4 \<equiv> r1 div 1461"
  defines "r2 \<equiv> r1 mod 1461"
  defines "n1 \<equiv> min 3 (r2 div 365)"
  defines "doy \<equiv> r2 - n1 * 365"
  defines "yoe \<equiv> n100 * 100 + n4 * 4 + n1"
  shows "0 \<le> yoe \<and> yoe < 400 \<and> 0 \<le> doy \<and> doy \<le> 365 \<and> days_before_year yoe + doy = doe"
proof -
  have doe: "0 \<le> doe" "doe < 146097" by (simp_all add: doe_def)
  have n100: "0 \<le> n100" "n100 \<le> 3" using doe by (simp_all add: n100_def)
  have r1: "0 \<le> r1" "r1 \<le> 36524" using doe unfolding r1_def n100_def by (auto simp: min_def)
  have n4: "0 \<le> n4" "n4 \<le> 24" using r1 unfolding n4_def by auto
  have r2: "0 \<le> r2" "r2 < 1461" by (simp_all add: r2_def)
  have r1_eq: "r1 = 1461 * n4 + r2" by (simp add: n4_def r2_def)
  have n1: "0 \<le> n1" "n1 \<le> 3" using r2 by (simp_all add: n1_def)
  have doy: "0 \<le> doy" "doy \<le> 365" using r2 unfolding doy_def n1_def by (auto simp: min_def)
  have yoe: "0 \<le> yoe" "yoe < 400" using n100 n4 n1 by (simp_all add: yoe_def)
  have "yoe = (25 * n100 + n4) * 4 + n1" by (simp add: yoe_def)
  then have d4: "yoe div 4 = 25 * n100 + n4" using n1 by (simp add: div_pos_pos_trivial)
  have "yoe = n100 * 100 + (n4 * 4 + n1)" by (simp add: yoe_def)
  then have d100: "yoe div 100 = n100" using n1 n4 by (simp add: div_pos_pos_trivial)
  have "days_before_year yoe + doy = doe"
    unfolding days_before_year_def d4 d100 using r1_eq by (simp add: yoe_def doy_def r1_def)
  with doy yoe show ?thesis by simp
qed

lemma month_parts:
  fixes doy :: int
  assumes "0 \<le> doy" "doy \<le> 365"
  defines "mp \<equiv> (5 * doy + 2) div 153"
  defines "m \<equiv> (if mp < 10 then mp + 3 else mp - 9)"
  shows "1 \<le> m \<and> m \<le> 12 \<and> (m + 9) mod 12 = mp \<and> (m \<le> 2) = (10 \<le> mp)"
proof -
  have "0 \<le> mp" "mp \<le> 11" using assms(1,2) unfolding mp_def by auto
  then show ?thesis unfolding m_def by auto
qed

text \<open>Reading the calendar date of a day and converting it back gives the day again.\<close>

lemma days_from_civil_from_days:
  assumes a: "civil_from_days z = (y, m, d)"
  shows "days_from_civil y m d = z \<and> 1 \<le> m \<and> m \<le> 12"
proof -
  define doe where "doe = (z + 719468) mod 146097"
  define era where "era = (z + 719468) div 146097"
  define n100 where "n100 = min 3 (doe div 36524)"
  define r1 where "r1 = doe - n100 * 36524"
  define n1 where "n1 = min 3 ((r1 mod 1461) div 365)"
  define doy where "doy = r1 mod 1461 - n1 * 365"
  define yoe where "yoe = n100 * 100 + (r1 div 1461) * 4 + n1"
  define mp where "mp = (5 * doy + 2) div 153"
  note defs = doe_def era_def n100_def r1_def n1_def doy_def yoe_def mp_def
  have P: "0 \<le> yoe \<and> yoe < 400 \<and> 0 \<le> doy \<and> doy \<le> 365 \<and> days_before_year yoe + doy = doe"
    unfolding defs by (rule civil_parts)
  have M: "1 \<le> (if mp < 10 then mp + 3 else mp - 9) \<and> (if mp < 10 then mp + 3 else mp - 9) \<le> 12
      \<and> ((if mp < 10 then mp + 3 else mp - 9) + 9) mod 12 = mp
      \<and> ((if mp < 10 then mp + 3 else mp - 9) \<le> 2) = (10 \<le> mp)"
    unfolding mp_def using P by (intro month_parts) auto
  have c: "civil_from_days z =
      (era * 400 + yoe + (if (if mp < 10 then mp + 3 else mp - 9) \<le> 2 then 1 else 0),
       (if mp < 10 then mp + 3 else mp - 9), doy - days_before_month mp + 1)"
    by (simp only: civil_from_days_def Let_def defs)
  have m: "m = (if mp < 10 then mp + 3 else mp - 9)"
    and d: "d = doy - days_before_month mp + 1"
    and y: "y = era * 400 + yoe + (if m \<le> 2 then 1 else 0)"
    using a unfolding c by auto
  have y': "(if m \<le> 2 then y - 1 else y) = era * 400 + yoe" using y by simp
  have e: "(era * 400 + yoe) div 400 = era" "(era * 400 + yoe) mod 400 = yoe"
    using P by (simp_all add: div_pos_pos_trivial)
  have z: "era * 146097 + doe = z + 719468" by (simp add: era_def doe_def)
  have "days_from_civil y m d = era * 146097 + days_before_year yoe + doy - 719468"
    unfolding days_from_civil_def Let_def y' e using M d m by simp
  also have "\<dots> = z" using P z by simp
  finally show ?thesis using M m by simp
qed

section \<open>The time library\<close>

lemma resolve_offset_FixedZone: "resolve_offset (FixedZone off) unix = off"
  by (simp add: resolve_offset_def FixedZone_def Let_def)

lemma resolve_offset_UTC: "resolve_offset UTC unix = 0"
  by (simp add: UTC_def resolve_offset_FixedZone)

lemma zone_offset_FixedZone: "zone_offset (FixedZone off x) = off"
  by (simp add: FixedZone_def)

lemma time_Date_civil:
  assumes "civil_from_days z = (y, m, d)" "0 \<le> n" "n < ns_per_sec"
    and u: "u = (z + k) * 86400 + h * 3600 + mi * 60 + s"
  shows "time_Date y m (d + k) h mi s n loc =
           \<lparr>unix_ns = (u - resolve_offset loc u) * ns_per_sec + n, Location = loc\<rparr>"
proof -
  from days_from_civil_from_days[OF assms(1)]
  have z: "days_from_civil y m d = z" and m: "1 \<le> m" "m \<le> 12" by simp_all
  have m1: "(m - 1) div 12 = 0" "(m - 1) mod 12 + 1 = m" using m by (simp_all add: div_pos_pos_trivial)
  have n: "n div ns_per_sec = 0" "n mod ns_per_sec = n"
    using assms(2,3) by (simp_all add: div_pos_pos_trivial)
  have lin: "days_from_civil y m (d + k) = days_from_civil y m d + k"
    by (simp add: days_from_civil_def Let_def)
  define U where "U = days_from_civil y m (d + k) * 86400 + h * 3600 + mi * 60 + s"
  have "time_Date y m (d + k) h mi s n loc =
      \<lparr>unix_ns = (U - resolve_offset loc U) * ns_per_sec + n, Location = loc\<rparr>"
    by (simp add: time_Date_def Let_def m1 n U_def)
  moreover have "U = u" unfolding U_def u lin z by simp
  ultimately show ?thesis by simp
qed

lemma start_of_day:
  "time_Date (Year t) (Month t) (Day t) 0 0 0 0 (Location t) =
     \<lparr>unix_ns = (local_day t * 86400 - resolve_offset (Location t) (local_day t * 86400)) * ns_per_sec,
      Location = Location t\<rparr>"
proof -
  have c: "civil_from_days (local_day t) = (Year t, Month t, Day t)"
    by (simp add: Year_def Month_def Day_def)
  have n: "(0::int) \<le> 0" "0 < ns_per_sec" by (simp_all add: ns_per_sec_def)
  have u: "local_day t * 86400 = (local_day t + 0) * 86400 + 0 * 3600 + 0 * 60 + 0" by simp
  show ?thesis using time_Date_civil[OF c n u, of "Location t"] by simp
qed

lemma clock_parts:
  fixes x :: int
  shows "(x mod 86400) div 3600 * 3600 + (x mod 3600) div 60 * 60 + x mod 60 = x mod 86400"
proof -
  have a: "x mod 86400 = (x mod 86400) div 3600 * 3600 + (x mod 86400) mod 3600" by simp
  have b: "(x mod 86400) mod 3600 = x mod 3600" by (simp add: mod_mod_cancel)
  have c: "x mod 3600 = (x mod 3600) div 60 * 60 + (x mod 3600) mod 60" by simp
  have d: "(x mod 3600) mod 60 = x mod 60" by (simp add: mod_mod_cancel)
  show ?thesis using a b c d by linarith
qed

text \<open>
  Adding \<open>k\<close> days moves the wall clock by \<open>k\<close> times 24 hours; the instant moves by as
  much, corrected by the change of the zone offset from \<open>t\<close> to the new wall clock time.
\<close>

lemma AddDate_days:
  "AddDate t 0 0 k =
     \<lparr>unix_ns = unix_ns t
         + (k * 86400 + offset_at t - resolve_offset (Location t) (local_sec t + k * 86400)) * ns_per_sec,
      Location = Location t\<rparr>"
proof -
  have c: "civil_from_days (local_day t) = (Year t, Month t, Day t)"
    by (simp add: Year_def Month_def Day_def)
  have n: "0 \<le> Nanosecond t" "Nanosecond t < ns_per_sec"
    by (simp_all add: Nanosecond_def ns_per_sec_def)
  have clock: "Hour t * 3600 + Minute t * 60 + Second t = local_sec t mod 86400"
    unfolding Hour_def Minute_def Second_def by (rule clock_parts)
  have day: "local_day t * 86400 + local_sec t mod 86400 = local_sec t"
    by (simp add: local_day_def)
  have ns: "(local_sec t - offset_at t) * ns_per_sec + Nanosecond t = unix_ns t"
    by (simp add: local_sec_def Nanosecond_def)
  have "(local_day t + k) * 86400 = local_day t * 86400 + k * 86400" by (simp add: distrib_right)
  then have secs: "(local_day t + k) * 86400 + Hour t * 3600 + Minute t * 60 + Second t
      = local_sec t + k * 86400"
    using clock day by linarith
  define r where "r = resolve_offset (Location t) (local_sec t + k * 86400)"
  have "AddDate t 0 0 k =
      \<lparr>unix_ns = (local_sec t + k * 86400 - r) * ns_per_sec + Nanosecond t, Location = Location t\<rparr>"
    unfolding AddDate_def r_def using time_Date_civil[OF c n secs[symmetric], of "Location t"]
    by simp
  moreover have "(local_sec t + k * 86400 - r) * ns_per_sec + Nanosecond t
      = unix_ns t + (k * 86400 + offset_at t - r) * ns_per_sec"
    using ns by (simp add: algebra_simps)
  ultimately show ?thesis unfolding r_def by simp
qed

lemma AddDate_days_FixedZone:
  "Location t = FixedZone off \<Longrightarrow> unix_ns (AddDate t 0 0 k) = unix_ns t + k * 86400 * ns_per_sec"
  by (simp add: AddDate_days resolve_offset_FixedZone offset_at_def zone_offset_FixedZone)

lemma parse_date_midnight_utc:
  assumes "parse_date s = Some due"
  shows "Location due = UTC \<and> unix_ns due = local_day due * 86400 * ns_per_sec \<and> s \<noteq> []"
proof -
  from assms obtain y m d where due: "due = time_Date y m d 0 0 0 0 UTC" and "s \<noteq> []"
    unfolding parse_date_def Let_def
    by (auto split: list.splits if_splits)
  have "unix_ns due = days_from_civil (y + (m - 1) div 12) ((m - 1) mod 12 + 1) d * 86400 * ns_per_sec"
    "Location due = UTC"
    by (simp_all add: due time_Date_def Let_def resolve_offset_UTC ns_per_sec_def)
  then show ?thesis
    using \<open>s \<noteq> []\<close>
    by (simp add: local_day_def local_sec_def offset_at_def UTC_def zone_offset_FixedZone
          ns_per_sec_def)
qed

section \<open>Overdue and due soon\<close>

lemma isOverdue_iff:
  "isOverdue t now =
     (\<not> Completed t \<and>
      (\<exists>due. parse_date (DueDate t) = Some due
         \<and> local_day due * 86400 < local_day now * 86400 - today_offset now))"
proof (cases "parse_date (DueDate t)")
  case None
  then show ?thesis by (simp add: isOverdue_def)
next
  case (Some due)
  from parse_date_midnight_utc[OF Some]
  have z: "Location due = UTC" and ne: "DueDate t \<noteq> []" by simp_all
  have sd: "time_Date (Year due) (Month due) (Day due) 0 0 0 0 UTC
          = \<lparr>unix_ns = local_day due * 86400 * ns_per_sec, Location = UTC\<rparr>"
    using start_of_day[of due] unfolding z by (simp add: resolve_offset_UTC)
  have pos: "0 < ns_per_sec" by (simp add: ns_per_sec_def)
  have "Before (time_Date (Year due) (Month due) (Day due) 0 0 0 0 (Location due))
               (time_Date (Year now) (Month now) (Day now) 0 0 0 0 (Location now))
        = (local_day due * 86400 < local_day now * 86400 - today_offset now)"
    unfolding start_of_day[of now] z sd Before_def today_offset_def using pos by simp
  then show ?thesis
    using Some ne by (simp add: isOverdue_def)
qed

lemma isTaskOverdue_eq: "isTaskOverdue t now = isOverdue t now"
  by (simp add: isTaskOverdue_def isOverdue_def)

text \<open>
  Where midnight of the current day has an offset east of UTC or none, overdue means
  due on an earlier day than the current one; where it has an offset west of UTC,
  overdue means due on the current day or earlier.
\<close>

lemma isOverdue_east_of_utc:
  assumes "0 \<le> today_offset now" "today_offset now < 86400"
  shows "isOverdue t now =
     (\<not> Completed t \<and> (\<exists>due. parse_date (DueDate t) = Some due \<and> local_day due < local_day now))"
proof -
  have "\<And>a b::int. (a * 86400 < b * 86400 - today_offset now) = (a < b)"
    using assms by auto
  then show ?thesis by (simp add: isOverdue_iff)
qed

lemma isOverdue_west_of_utc:
  assumes "- 86400 < today_offset now" "today_offset now < 0"
  shows "isOverdue t now =
     (\<not> Completed t \<and> (\<exists>due. parse_date (DueDate t) = Some due \<and> local_day due \<le> local_day now))"
proof -
  have "\<And>a b::int. (a * 86400 < b * 86400 - today_offset now) = (a \<le> b)"
    using assms by auto
  then show ?thesis by (simp add: isOverdue_iff)
qed

lemma getDueSoonTasks_filter: "getDueSoonTasks ts now = filter (\<lambda>t. isDueSoon t now) ts"
  by (induction ts) (auto simp: isDueSoon_def)

text \<open>
  Claim C5. \<open>isDueSoon\<close> holds exactly when the task is not completed, its due date
  parses, and the instant of the parsed date is neither before the instant \<open>now\<close> nor
  after the instant of \<open>now\<close> plus three days. The parsed date is midnight UTC of the due
  day. \<open>now\<close> plus three days is \<open>now.AddDate(0, 0, 3)\<close>, the same wall clock time three
  days later in the location of \<open>now\<close>: three times 86400 seconds later, corrected by the
  change of the zone offset in between (none in a location without transitions, an
  hour where daylight saving time starts or ends). Put together: the task is due soon
  exactly when it is pending and midnight UTC of its due day lies between the instant
  \<open>now\<close> and that later instant, both included. A task that is completed, or whose
  due date is empty or does not parse, is never due soon; and \<open>getDueSoonTasks\<close> keeps
  exactly the tasks that are due soon, in their order.
\<close>

theorem isDueSoon_iff:
  "isDueSoon t now =
     (\<not> Completed t \<and>
      (\<exists>due. parse_date (DueDate t) = Some due
         \<and> unix_ns now \<le> unix_ns due \<and> unix_ns due \<le> unix_ns (AddDate now 0 0 3)))
   \<and> (\<forall>due. parse_date (DueDate t) = Some due \<longrightarrow>
         Location due = UTC \<and> unix_ns due = local_day due * 86400 * ns_per_sec)
   \<and> AddDate now 0 0 3 =
       \<lparr>unix_ns = unix_ns now
          + (3 * 86400 + offset_at now - resolve_offset (Location now) (local_sec now + 3 * 86400))
            * ns_per_sec,
        Location = Location now\<rparr>
   \<and> isDueSoon t now =
       (\<not> Completed t \<and>
        (\<exists>due. parse_date (DueDate t) = Some due
           \<and> unix_ns now \<le> local_day due * 86400 * ns_per_sec
           \<and> local_day due * 86400 * ns_per_sec
               \<le> unix_ns now
                  + (3 * 86400 + offset_at now
                       - resolve_offset (Location now) (local_sec now + 3 * 86400))
                    * ns_per_sec))
   \<and> (Completed t \<or> DueDate t = [] \<or> parse_date (DueDate t) = None \<longrightarrow> \<not> isDueSoon t now)
   \<and> getDueSoonTasks ts now = filter (\<lambda>t. isDueSoon t now) ts"
proof -
  have a: "isDueSoon t now =
     (\<not> Completed t \<and>
      (\<exists>due. parse_date (DueDate t) = Some due
         \<and> unix_ns now \<le> unix_ns due \<and> unix_ns due \<le> unix_ns (AddDate now 0 0 3)))"
  proof (cases "parse_date (DueDate t)")
    case None
    then show ?thesis by (simp add: isDueSoon_def)
  next
    case (Some due)
    from parse_date_midnight_utc[OF Some] have "DueDate t \<noteq> []" by simp
    then show ?thesis
      using Some by (auto simp: isDueSoon_def Let_def Before_def After_def)
  qed
  have p: "\<forall>due. parse_date (DueDate t) = Some due \<longrightarrow>
         Location due = UTC \<and> unix_ns due = local_day due * 86400 * ns_per_sec"
    using parse_date_midnight_utc by blast
  have b: "Completed t \<or> DueDate t = [] \<or> parse_date (DueDate t) = None \<longrightarrow> \<not> isDueSoon t now"
    by (auto simp: isDueSoon_def)
  have d: "AddDate now 0 0 3 =
       \<lparr>unix_ns = unix_ns now
          + (3 * 86400 + offset_at now - resolve_offset (Location now) (local_sec now + 3 * 86400))
            * ns_per_sec,
        Location = Location now\<rparr>"
    using AddDate_days[of now 3] by simp
  have e: "isDueSoon t now =
       (\<not> Completed t \<and>
        (\<exists>due. parse_date (DueDate t) = Some due
           \<and> unix_ns now \<le> local_day due * 86400 * ns_per_sec
           \<and> local_day due * 86400 * ns_per_sec
               \<le> unix_ns now
                  + (3 * 86400 + offset_at now
                       - resolve_offset (Location now) (local_sec now + 3 * 86400))
                    * ns_per_sec))"
  proof (cases "parse_date (DueDate t)")
    case None
    then show ?thesis using a by simp
  next
    case (Some due)
    from p Some have u: "unix_ns due = local_day due * 86400 * ns_per_sec" by blast
    have "unix_ns (AddDate now 0 0 3) = unix_ns now
        + (3 * 86400 + offset_at now - resolve_offset (Location now) (local_sec now + 3 * 86400))
          * ns_per_sec"
      unfolding d by simp
    then show ?thesis using a Some u by simp
  qed
  have f: "getDueSoonTasks ts now = filter (\<lambda>t. isDueSoon t now) ts"
    by (rule getDueSoonTasks_filter)
  from a p d e b f show ?thesis by (intro conjI)
qed

text \<open>
  On the evening of 2025-03-08 in New York, daylight saving time starts within the next
  three days and \<open>now\<close> plus three days is 71 hours later. The four tasks of the list are
  due on 2025-03-11 (due soon), due on 2025-03-12 (71 and a half hours later, not due
  soon), completed, and without a due date.
\<close>

theorem isDueSoon_iff_witness:
  "isDueSoon (sample_task\<lparr>DueDate := ''2025-03-11''\<rparr>) march_8_evening
   \<and> \<not> isDueSoon (sample_task\<lparr>DueDate := ''2025-03-12''\<rparr>) march_8_evening
   \<and> unix_ns (AddDate march_8_evening 0 0 3) = unix_ns march_8_evening + 71 * 3600 * ns_per_sec
   \<and> getDueSoonTasks
        [sample_task\<lparr>DueDate := ''2025-03-11''\<rparr>, sample_task\<lparr>DueDate := ''2025-03-12''\<rparr>,
         sample_task\<lparr>DueDate := ''2025-03-11'', Completed := True\<rparr>, sample_task\<lparr>DueDate := []\<rparr>]
        march_8_evening
       = [sample_task\<lparr>DueDate := ''2025-03-11''\<rparr>]"
proof -
  let ?now = march_8_evening
  let ?a = "sample_task\<lparr>DueDate := ''2025-03-11''\<rparr>"
  let ?b = "sample_task\<lparr>DueDate := ''2025-03-12''\<rparr>"
  let ?c = "sample_task\<lparr>DueDate := ''2025-03-11'', Completed := True\<rparr>"
  let ?d = "sample_task\<lparr>DueDate := []\<rparr>"
  have pa: "parse_date (DueDate ?a) = Some \<lparr>unix_ns = 1741651200000000000, Location = UTC\<rparr>"
    and pb: "parse_date (DueDate ?b) = Some \<lparr>unix_ns = 1741737600000000000, Location = UTC\<rparr>"
    by (simp_all add: sample_task_def parse_date_def is_digit_def digit_val_def daysIn_def
          isLeap_def time_Date_def days_from_civil_def days_before_year_def days_before_month_def
          ns_per_sec_def resolve_offset_UTC)
  have r: "offset_at ?now = - 18000"
    "resolve_offset (Location ?now) (local_sec ?now + 3 * 86400) = - 14400"
    by code_simp+
  have add: "unix_ns (AddDate ?now 0 0 3) = unix_ns ?now + 71 * 3600 * ns_per_sec"
    using isDueSoon_iff[of ?a ?now "[]", THEN conjunct2, THEN conjunct2, THEN conjunct1]
    unfolding r by simp
  have n: "unix_ns ?now = 1741480200000000000" by (simp add: march_8_evening_def)
  have a: "isDueSoon ?a ?now"
    using isDueSoon_iff[of ?a ?now "[]", THEN conjunct1]
    unfolding pa add n by (simp add: sample_task_def ns_per_sec_def)
  have b: "\<not> isDueSoon ?b ?now"
    using isDueSoon_iff[of ?b ?now "[]", THEN conjunct1]
    unfolding pb add n by (simp add: sample_task_def ns_per_sec_def)
  have c: "\<not> isDueSoon ?c ?now"
    using isDueSoon_iff[of ?c ?now "[]",
        THEN conjunct2, THEN conjunct2, THEN conjunct2, THEN conjunct2, THEN conjunct1]
    by simp
  have d: "\<not> isDueSoon ?d ?now"
    using isDueSoon_iff[of ?d ?now "[]",
        THEN conjunct2, THEN conjunct2, THEN conjunct2, THEN conjunct2, THEN conjunct1]
    by simp
  show ?thesis
    using a b c d add
      isDueSoon_iff[of ?a ?now "[?a, ?b, ?c, ?d]",
        THEN conjunct2, THEN conjunct2, THEN conjunct2, THEN conjunct2, THEN conjunct2]
    by simp
qed

text \<open>
  Claim C3. The claim fails on the code west of Greenwich: \<open>today\<close> is midnight in the
  location of \<open>now\<close>, \<open>taskDate\<close> is midnight in UTC, and \<open>Before\<close> compares the two
  instants. At noon of 2025-01-10 in New York a pending task due on 2025-01-10 is
  classified overdue by \<open>isOverdue\<close> and by \<open>isTaskOverdue\<close>.
\<close>

theorem isOverdue_due_today:
  "(Year noon_new_york, Month noon_new_york, Day noon_new_york) = (2025, 1, 10)
   \<and> DueDate sample_task = ''2025-01-10'' \<and> \<not> Completed sample_task
   \<and> isOverdue sample_task noon_new_york \<and> isTaskOverdue sample_task noon_new_york"
  by code_simp

text \<open>
  Claim C10. \<open>isOverdue\<close> and \<open>isTaskOverdue\<close> are the same function
  (\<open>isTaskOverdue_eq\<close>), but \<open>getOverdueTasks\<close> does not agree with them: it compares
  the due date with the instant \<open>now\<close>, not with the start of the day. At noon UTC of
  2025-01-10 a pending task due on 2025-01-10 is not overdue for the list and mark views
  and is in the delete view's overdue suggestion.
\<close>

theorem overdue_tests_disagree:
  "\<not> isOverdue sample_task noon_utc \<and> \<not> isTaskOverdue sample_task noon_utc
   \<and> getOverdueTasks [sample_task] noon_utc = [sample_task]"
  by code_simp

section \<open>Adding a task\<close>

lemma sint_succ:
  fixes x :: go_int
  assumes "sint x < 9223372036854775807"
  shows "sint (x + 1) = sint x + 1"
proof -
  have "- (2 ^ 63) \<le> sint x" using sint_ge[of x] by simp
  then show ?thesis
    using assms by (simp add: sint_word_ariths signed_take_bit_int_eq_self)
qed

text \<open>
  Claim C6. When \<open>ValidateDate\<close> or \<open>ValidatePriority\<close> rejects its argument, \<open>AddTask\<close>
  returns an error and leaves the store as it was. Otherwise it appends one task, whose
  ID is the old \<open>NextID\<close>, whose priority is the lower-cased argument and which is not
  completed, and \<open>NextID\<close> becomes \<open>NextID + 1\<close> (Go's \<open>++\<close> on a 64-bit integer; below
  the largest integer this is the successor of the signed value).
\<close>

theorem AddTask_atomic:
  "(ValidateDate dueDate \<noteq> None \<or> ValidatePriority lower prio \<noteq> None \<longrightarrow>
      (\<exists>err. fst (AddTask lower store description dueDate prio) = Inl err)
      \<and> snd (AddTask lower store description dueDate prio) = store)
   \<and> (ValidateDate dueDate = None \<and> ValidatePriority lower prio = None \<longrightarrow>
      (\<exists>t. fst (AddTask lower store description dueDate prio) = Inr t
           \<and> Tasks (snd (AddTask lower store description dueDate prio)) = Tasks store @ [t]
           \<and> ID t = NextID store \<and> Priority t = ToLower lower prio \<and> \<not> Completed t
           \<and> Description t = description \<and> DueDate t = dueDate)
      \<and> NextID (snd (AddTask lower store description dueDate prio)) = NextID store + 1
      \<and> (sint (NextID store) < 9223372036854775807 \<longrightarrow>
            sint (NextID (snd (AddTask lower store description dueDate prio))) = sint (NextID store) + 1))"
  by (auto simp: AddTask_def Let_def sint_succ split: option.splits)

theorem AddTask_atomic_witness:
  "AddTask ascii_only empty_store ''buy milk'' ''2025-02-30'' ''high'' = (Inl (InvalidDate ''2025-02-30''), empty_store)
   \<and> AddTask ascii_only empty_store ''buy milk'' ''2025-02-28'' ''shiny'' = (Inl (InvalidPriority ''shiny''), empty_store)
   \<and> AddTask ascii_only empty_store ''buy milk'' ''2025-02-28'' ''HIGH''
       = (Inr \<lparr>ID = 1, Description = ''buy milk'', DueDate = ''2025-02-28'', Priority = ''high'',
                Completed = False\<rparr>,
          \<lparr>Tasks = [\<lparr>ID = 1, Description = ''buy milk'', DueDate = ''2025-02-28'',
                      Priority = ''high'', Completed = False\<rparr>], NextID = 2\<rparr>)"
proof -
  have v: "ValidateDate ''2025-02-30'' = Some (InvalidDate ''2025-02-30'')"
    "ValidateDate ''2025-02-28'' = None"
    "ValidatePriority ascii_only ''shiny'' = Some (InvalidPriority ''shiny'')"
    "ValidatePriority ascii_only ''HIGH'' = None" "ToLower ascii_only ''HIGH'' = ''high''"
    by code_simp+
  have a: "AddTask ascii_only empty_store ''buy milk'' ''2025-02-30'' ''high'' = (Inl (InvalidDate ''2025-02-30''), empty_store)"
    using AddTask_atomic[where dueDate="''2025-02-30''" and prio="''high''" and store=empty_store
        and description="''buy milk''" and lower=ascii_only] v
    by (auto simp: AddTask_def prod_eq_iff)
  have b: "AddTask ascii_only empty_store ''buy milk'' ''2025-02-28'' ''shiny'' = (Inl (InvalidPriority ''shiny''), empty_store)"
    using AddTask_atomic[where dueDate="''2025-02-28''" and prio="''shiny''" and store=empty_store
        and description="''buy milk''" and lower=ascii_only] v
    by (auto simp: AddTask_def prod_eq_iff)
  have c: "AddTask ascii_only empty_store ''buy milk'' ''2025-02-28'' ''HIGH''
       = (Inr \<lparr>ID = 1, Description = ''buy milk'', DueDate = ''2025-02-28'', Priority = ''high'',
                Completed = False\<rparr>,
          \<lparr>Tasks = [\<lparr>ID = 1, Description = ''buy milk'', DueDate = ''2025-02-28'',
                      Priority = ''high'', Completed = False\<rparr>], NextID = 2\<rparr>)"
    using AddTask_atomic[where dueDate="''2025-02-28''" and prio="''HIGH''" and store=empty_store
        and description="''buy milk''" and lower=ascii_only] v
    by (auto simp: prod_eq_iff empty_store_def)
  show ?thesis using a b c by simp
qed

lemma getOverdueTasks_set:
  "set (getOverdueTasks ts now) =
     {t \<in> set ts. \<not> Completed t \<and> DueDate t \<noteq> []
        \<and> (\<exists>due. parse_date (DueDate t) = Some due \<and> Before due now)}"
  by (induction ts) (auto split: option.splits)

text \<open>
  One direction of the agreement does hold wherever midnight of the current day is not
  after \<open>now\<close>: what the list and mark views call overdue, the delete view reports as well.
\<close>

lemma isOverdue_imp_getOverdueTasks:
  assumes "isOverdue t now" "t \<in> set ts"
    and "(local_day now * 86400 - today_offset now) * ns_per_sec \<le> unix_ns now"
  shows "t \<in> set (getOverdueTasks ts now)"
proof -
  from assms(1) obtain due where c: "\<not> Completed t" and p: "parse_date (DueDate t) = Some due"
    and lt: "local_day due * 86400 < local_day now * 86400 - today_offset now"
    unfolding isOverdue_iff by blast
  from parse_date_midnight_utc[OF p]
  have u: "unix_ns due = local_day due * 86400 * ns_per_sec" and ne: "DueDate t \<noteq> []" by simp_all
  have "local_day due * 86400 * ns_per_sec < (local_day now * 86400 - today_offset now) * ns_per_sec"
    using lt by (simp add: ns_per_sec_def)
  then have "unix_ns due < unix_ns now"
    unfolding u using assms(3) by linarith
  then show ?thesis
    using c p ne assms(2) by (auto simp: getOverdueTasks_set Before_def)
qed

text \<open>
  Claim C7. \<open>ValidateDate\<close> accepts the empty string; \<open>AddTask\<close> with an empty due date
  and a valid priority succeeds and stores the task with an empty \<open>DueDate\<close>; and a task
  with an empty \<open>DueDate\<close> is not overdue for any of the three views and not due soon.
\<close>

theorem due_date_optional:
  "ValidateDate [] = None
   \<and> (ValidatePriority lower prio = None \<longrightarrow>
        (\<exists>t. fst (AddTask lower store description [] prio) = Inr t \<and> DueDate t = []
            \<and> Tasks (snd (AddTask lower store description [] prio)) = Tasks store @ [t]))
   \<and> (DueDate t = [] \<longrightarrow>
        \<not> isOverdue t now \<and> \<not> isTaskOverdue t now \<and> \<not> isDueSoon t now
        \<and> t \<notin> set (getOverdueTasks ts now) \<and> t \<notin> set (getDueSoonTasks ts now))"
proof -
  have v: "ValidateDate [] = None" by (simp add: ValidateDate_def)
  have a: "ValidatePriority lower prio = None \<longrightarrow>
        (\<exists>t. fst (AddTask lower store description [] prio) = Inr t \<and> DueDate t = []
            \<and> Tasks (snd (AddTask lower store description [] prio)) = Tasks store @ [t])"
    by (simp add: AddTask_def Let_def v)
  have c: "DueDate t = [] \<longrightarrow>
        \<not> isOverdue t now \<and> \<not> isTaskOverdue t now \<and> \<not> isDueSoon t now
        \<and> t \<notin> set (getOverdueTasks ts now) \<and> t \<notin> set (getDueSoonTasks ts now)"
    by (simp add: isOverdue_def isTaskOverdue_def isDueSoon_def getOverdueTasks_set
          getDueSoonTasks_filter)
  show ?thesis using v a c by blast
qed

theorem due_date_optional_witness:
  "fst (AddTask ascii_only empty_store ''call home'' [] ''Low'')
     = Inr \<lparr>ID = 1, Description = ''call home'', DueDate = [], Priority = ''low'', Completed = False\<rparr>
   \<and> \<not> isOverdue (sample_task\<lparr>DueDate := []\<rparr>) noon_new_york
   \<and> \<not> isDueSoon (sample_task\<lparr>DueDate := []\<rparr>) noon_new_york"
proof -
  have v: "ValidatePriority ascii_only ''Low'' = None" by code_simp
  have e: "AddTask ascii_only empty_store ''call home'' [] ''Low''
     = (Inr \<lparr>ID = 1, Description = ''call home'', DueDate = [], Priority = ''low'', Completed = False\<rparr>,
        \<lparr>Tasks = [\<lparr>ID = 1, Description = ''call home'', DueDate = [], Priority = ''low'',
                    Completed = False\<rparr>], NextID = 2\<rparr>)"
    by code_simp
  show ?thesis
    using due_date_optional[where prio="''Low''" and store=empty_store and description="''call home''"
            and t="sample_task\<lparr>DueDate := []\<rparr>" and now=noon_new_york and ts="[]"
            and lower=ascii_only] v e
    by simp
qed

section \<open>Changing the completion flag\<close>

lemma index_of_id_Some:
  "index_of_id ts i = Some k \<Longrightarrow>
     k < length ts \<and> ID (ts ! k) = i \<and> (\<forall>j<k. ID (ts ! j) \<noteq> i)"
proof (induction ts arbitrary: k)
  case Nil
  then show ?case by simp
next
  case (Cons t ts)
  show ?case
  proof (cases "ID t = i")
    case True
    with Cons.prems show ?thesis by simp
  next
    case False
    with Cons.prems obtain k' where k': "index_of_id ts i = Some k'" "k = Suc k'" by auto
    from Cons.IH[OF k'(1)] False k'(2) show ?thesis
      by (auto simp: nth_Cons split: nat.splits)
  qed
qed

lemma index_of_id_None: "(index_of_id ts i = None) = (\<forall>t\<in>set ts. ID t \<noteq> i)"
  by (induction ts) auto

lemma only_completed_changed_update:
  assumes "k < length (Tasks s)"
  shows "only_completed_changed s k c (s\<lparr>Tasks := (Tasks s)[k := (Tasks s ! k)\<lparr>Completed := c\<rparr>]\<rparr>)"
  using assms by (auto simp: only_completed_changed_def list_all_iff nth_list_update)

text \<open>
  Claim C9. When some task has the given ID, \<open>updateTaskCompletion\<close> (with either flag)
  and \<open>CompleteTask\<close> return no error and change only the \<open>Completed\<close> field of the first
  task with that ID: that task's other fields, all other tasks, their order and
  \<open>NextID\<close> stay as they were. When no task has the ID, both return an error and the
  store is unchanged.
\<close>

theorem completion_update_frame:
  "((\<exists>t\<in>set (Tasks store). ID t = i) \<longrightarrow>
      (\<exists>k. k < length (Tasks store) \<and> ID (Tasks store ! k) = i
           \<and> (\<forall>j<k. ID (Tasks store ! j) \<noteq> i)
           \<and> fst (updateTaskCompletion store i c) = None
           \<and> only_completed_changed store k c (snd (updateTaskCompletion store i c))
           \<and> fst (CompleteTask store i) = None
           \<and> only_completed_changed store k True (snd (CompleteTask store i))))
   \<and> ((\<forall>t\<in>set (Tasks store). ID t \<noteq> i) \<longrightarrow>
        (\<exists>e. fst (updateTaskCompletion store i c) = Some e)
        \<and> snd (updateTaskCompletion store i c) = store
        \<and> (\<exists>e. fst (CompleteTask store i) = Some e)
        \<and> snd (CompleteTask store i) = store)"
proof (cases "index_of_id (Tasks store) i")
  case None
  then show ?thesis
    using index_of_id_None[of "Tasks store" i]
    by (simp add: updateTaskCompletion_def CompleteTask_def)
next
  case (Some k)
  from index_of_id_Some[OF Some] index_of_id_None[of "Tasks store" i] Some
  show ?thesis
    by (auto simp: updateTaskCompletion_def CompleteTask_def only_completed_changed_update
          intro!: exI[of _ k])
qed

theorem completion_update_frame_witness:
  "updateTaskCompletion store_two 2 True
     = (None, store_two\<lparr>Tasks := [sample_task,
              sample_task\<lparr>ID := 2, Description := ''water the plants'', Completed := True\<rparr>,
              sample_task\<lparr>ID := 2, Description := ''a second task 2''\<rparr>]\<rparr>)
   \<and> only_completed_changed store_two 1 True (snd (updateTaskCompletion store_two 2 True))
   \<and> updateTaskCompletion store_two 7 True = (Some TaskNotFound, store_two)
   \<and> CompleteTask store_two 7 = (Some (TaskIDNotFound 7), store_two)"
proof -
  have a: "updateTaskCompletion store_two 2 True
     = (None, store_two\<lparr>Tasks := [sample_task,
              sample_task\<lparr>ID := 2, Description := ''water the plants'', Completed := True\<rparr>,
              sample_task\<lparr>ID := 2, Description := ''a second task 2''\<rparr>]\<rparr>)"
    by (simp add: updateTaskCompletion_def store_two_def sample_task_def)
  have b: "updateTaskCompletion store_two 7 True = (Some TaskNotFound, store_two)"
    "CompleteTask store_two 7 = (Some (TaskIDNotFound 7), store_two)"
    by (simp_all add: updateTaskCompletion_def CompleteTask_def store_two_def sample_task_def)
  have i: "ID (Tasks store_two ! 0) \<noteq> 2" "\<exists>t\<in>set (Tasks store_two). ID t = 2"
    by (simp_all add: store_two_def sample_task_def)
  from completion_update_frame[of store_two 2 True] i
  obtain k where k: "k < length (Tasks store_two)" "ID (Tasks store_two ! k) = 2"
      "\<forall>j<k. ID (Tasks store_two ! j) \<noteq> 2"
      "only_completed_changed store_two k True (snd (updateTaskCompletion store_two 2 True))"
    by blast
  have "k = 1"
  proof -
    have "k \<noteq> 0" using k(2) i(1) by (cases "k = 0") auto
    moreover have "\<not> 1 < k" using k(3) by (auto simp: store_two_def sample_task_def)
    ultimately show ?thesis by simp
  qed
  with k(4) a b show ?thesis by simp
qed

section \<open>The health score\<close>

lemma sint_word_of_int_64:
  fixes k :: int
  assumes "- 9223372036854775808 \<le> k" "k < 9223372036854775808"
  shows "sint (word_of_int k :: go_int) = k"
  using assms by (simp add: sint_sbintrunc' signed_take_bit_int_eq_self)

lemma go_div_nonneg:
  fixes a b :: int
  assumes "0 \<le> a" "a < 9223372036854775808" "0 < b" "b < 9223372036854775808"
  shows "go_div (word_of_int a) (word_of_int b) = word_of_int (a div b)"
proof -
  have "sint (word_of_int a :: go_int) = a" "sint (word_of_int b :: go_int) = b"
    using assms by (simp_all add: sint_word_of_int_64)
  moreover have "a sdiv b = a div b"
    using assms by (simp add: signed_divide_int_def sgn_if)
  ultimately show ?thesis by (simp add: go_div_def)
qed

text \<open>The function on integers that the claim describes.\<close>

lemma calculateTaskHealthScore_int:
  fixes t c o' h :: int
  assumes t: "0 \<le> t" "t < 72057594037927936"
    and c: "0 \<le> c" "c \<le> t" and o': "0 \<le> o'" "o' \<le> t" and h: "0 \<le> h" "h \<le> t"
  shows "sint (calculateTaskHealthScore (word_of_int t) (word_of_int c) (word_of_int o') (word_of_int h))
         = (if t = 0 then 100 else max 0 (min 100 (c * 100 div t - 20 * o' - 10 * h)))"
proof (cases "t = 0")
  case True
  then show ?thesis by (simp add: calculateTaskHealthScore_def)
next
  case False
  then have tpos: "0 < t" using t by simp
  have t0: "(word_of_int t :: go_int) \<noteq> 0"
  proof
    assume "(word_of_int t :: go_int) = 0"
    then have "sint (word_of_int t :: go_int) = 0" by simp
    then show False using t tpos by (simp add: sint_word_of_int_64)
  qed
  define cb where "cb = c * 100 div t"
  have cb: "0 \<le> cb" "cb \<le> 100"
  proof -
    show "0 \<le> cb" unfolding cb_def using c tpos by (simp add: pos_imp_zdiv_nonneg_iff)
    have "c * 100 div t \<le> t * 100 div t" using c tpos by (intro zdiv_mono1) auto
    then show "cb \<le> 100" unfolding cb_def using tpos by simp
  qed
  have m: "(word_of_int c :: go_int) * 100 = word_of_int (c * 100)"
    by simp
  have d: "go_div (word_of_int (c * 100)) (word_of_int t) = word_of_int cb"
    unfolding cb_def using c t tpos by (intro go_div_nonneg) auto
  define s where "s = cb - 20 * o' - 10 * h"
  have sw: "go_div ((word_of_int c :: go_int) * 100) (word_of_int t) - word_of_int o' * 20 - word_of_int h * 10
      = (word_of_int s :: go_int)"
    unfolding m d s_def by simp
  have sr: "- 9223372036854775808 \<le> s" "s < 9223372036854775808"
    unfolding s_def using cb o' h t by auto
  have ss: "sint (word_of_int s :: go_int) = s" using sr by (rule sint_word_of_int_64)
  show ?thesis
    using False t0 ss unfolding calculateTaskHealthScore_def Let_def sw
    by (auto simp: s_def cb_def max_def min_def)
qed

lemma count_loop_completed:
  "completedTasks (count_loop ts now c) = completedTasks c + of_nat (length (filter Completed ts))"
  by (induction ts arbitrary: c) (simp_all add: Let_def)

lemma count_loop_overdue:
  "overdueTasks (count_loop ts now c)
     = overdueTasks c + of_nat (length (filter (\<lambda>t. \<not> Completed t \<and> isTaskOverdue t now) ts))"
  by (induction ts arbitrary: c) (simp_all add: Let_def)

lemma count_loop_highPriority:
  "highPriorityPending (count_loop ts now c)
     = highPriorityPending c + of_nat (length (filter (\<lambda>t. \<not> Completed t \<and> Priority t = ''high'') ts))"
  by (induction ts arbitrary: c) (simp_all add: Let_def)

text \<open>
  Claim C1. For a store with \<open>t\<close> tasks, of which \<open>c\<close> are completed, \<open>o\<close> are pending and
  overdue and \<open>h\<close> are pending with priority high, the health score is 100 when \<open>t = 0\<close>,
  and otherwise \<open>c * 100 div t - 20 * o - 10 * h\<close> cut off below at 0 and above at 100.
  The bound \<open>2 ^ 56\<close> on the number of tasks keeps the 64-bit arithmetic from wrapping;
  no slice of tasks is that long (a task takes 64 bytes, and the Go heap on amd64 and
  arm64 has \<open>2 ^ 48\<close>).
\<close>

theorem health_score:
  assumes "length (Tasks store) < 72057594037927936"
  shows "sint (analyzeTaskPatterns store now) =
     (let t = int (length (Tasks store));
          c = int (length (filter Completed (Tasks store)));
          o' = int (length (filter (\<lambda>t. \<not> Completed t \<and> isTaskOverdue t now) (Tasks store)));
          h = int (length (filter (\<lambda>t. \<not> Completed t \<and> Priority t = ''high'') (Tasks store)))
      in if t = 0 then 100 else max 0 (min 100 (c * 100 div t - 20 * o' - 10 * h)))"
proof -
  define ts where "ts = Tasks store"
  define t where "t = int (length ts)"
  define c where "c = int (length (filter Completed ts))"
  define o' where "o' = int (length (filter (\<lambda>t. \<not> Completed t \<and> isTaskOverdue t now) ts))"
  define h where "h = int (length (filter (\<lambda>t. \<not> Completed t \<and> Priority t = ''high'') ts))"
  have b: "0 \<le> t" "t < 72057594037927936" "0 \<le> c" "c \<le> t" "0 \<le> o'" "o' \<le> t" "0 \<le> h" "h \<le> t"
    using assms by (simp_all add: t_def c_def o'_def h_def ts_def)
  have "analyzeTaskPatterns store now
      = calculateTaskHealthScore (word_of_int t) (word_of_int c) (word_of_int o') (word_of_int h)"
    by (simp add: analyzeTaskPatterns_def Let_def count_loop_completed count_loop_overdue
          count_loop_highPriority t_def c_def o'_def h_def ts_def)
  then show ?thesis
    using calculateTaskHealthScore_int[OF b]
    by (simp add: Let_def t_def c_def o'_def h_def ts_def)
qed

theorem health_score_witness:
  "length (Tasks store_health) < 72057594037927936
   \<and> sint (analyzeTaskPatterns store_health noon_utc) = 50"
proof -
  have l: "length (Tasks store_health) < 72057594037927936" by (simp add: store_health_def)
  have o: "\<not> isTaskOverdue (sample_task\<lparr>ID := 4, DueDate := [], Priority := ''high''\<rparr>) noon_utc"
    "\<not> isTaskOverdue (sample_task\<lparr>ID := 5, DueDate := ''2030-01-01'', Priority := ''low''\<rparr>) noon_utc"
    by code_simp+
  show ?thesis
    using health_score[OF l, of noon_utc] l o
    by (simp add: store_health_def sample_task_def Let_def)
qed

section \<open>The store invariant\<close>

lemma run_operations_append:
  "run_operations lower (xs @ ys) s = run_operations lower ys (run_operations lower xs s)"
  by (simp add: run_operations_def)

lemma map_ID_update:
  "map ID (ts[k := (ts ! k)\<lparr>Completed := c\<rparr>]) = map ID ts"
proof (cases "k < length ts")
  case True
  then have "(map ID ts)[k := ID (ts ! k)] = map ID ts"
    by (simp add: list_update_same_conv)
  then show ?thesis by (simp add: map_update)
next
  case False
  then have "length ts \<le> k" by simp
  then show ?thesis by (simp add: list_update_beyond)
qed

lemma store_inv_completion:
  assumes "store_inv s"
  shows "store_inv (snd (updateTaskCompletion s i c)) \<and> NextID (snd (updateTaskCompletion s i c)) = NextID s"
    and "store_inv (snd (CompleteTask s i)) \<and> NextID (snd (CompleteTask s i)) = NextID s"
proof -
  have "\<And>k c. list_all (\<lambda>t. sint (ID t) < sint (NextID s)) ((Tasks s)[k := (Tasks s ! k)\<lparr>Completed := c\<rparr>])"
  proof -
    fix k c
    have "list_all (\<lambda>i. sint i < sint (NextID s)) (map ID ((Tasks s)[k := (Tasks s ! k)\<lparr>Completed := c\<rparr>]))"
      unfolding map_ID_update using assms by (simp add: store_inv_def list_all_iff)
    then show "list_all (\<lambda>t. sint (ID t) < sint (NextID s)) ((Tasks s)[k := (Tasks s ! k)\<lparr>Completed := c\<rparr>])"
      by (simp add: list_all_iff)
  qed
  then show "store_inv (snd (updateTaskCompletion s i c)) \<and> NextID (snd (updateTaskCompletion s i c)) = NextID s"
    and "store_inv (snd (CompleteTask s i)) \<and> NextID (snd (CompleteTask s i)) = NextID s"
    using assms
    by (auto simp: updateTaskCompletion_def CompleteTask_def store_inv_def map_ID_update
             split: option.splits)
qed

lemma distinct_take_drop:
  assumes "distinct xs"
  shows "distinct (take k xs @ drop (Suc k) xs)"
proof -
  have "distinct (take k xs @ drop k xs)" using assms by simp
  then have "set (take k xs) \<inter> set (drop k xs) = {}" by (simp only: distinct_append)
  moreover have "set (drop (Suc k) xs) \<subseteq> set (drop k xs)" by (simp add: set_drop_subset_set_drop)
  ultimately have "set (take k xs) \<inter> set (drop (Suc k) xs) = {}" by blast
  then show ?thesis using assms by simp
qed

lemma store_inv_delete:
  assumes "store_inv s"
  shows "store_inv (snd (deleteTaskByID s i)) \<and> NextID (snd (deleteTaskByID s i)) = NextID s"
proof (cases "index_of_id (Tasks s) i")
  case None
  then show ?thesis using assms by (simp add: deleteTaskByID_def)
next
  case (Some k)
  have d: "distinct (take k (map ID (Tasks s)) @ drop (Suc k) (map ID (Tasks s)))"
    using assms by (intro distinct_take_drop) (simp add: store_inv_def)
  have "\<forall>t\<in>set (Tasks s). sint (ID t) < sint (NextID s)"
    using assms by (simp add: store_inv_def list_all_iff)
  then have "\<forall>t\<in>set (take k (Tasks s)) \<union> set (drop (Suc k) (Tasks s)). sint (ID t) < sint (NextID s)"
    by (meson Un_iff in_set_takeD in_set_dropD)
  then show ?thesis
    using Some d by (simp add: deleteTaskByID_def store_inv_def list_all_iff take_map drop_map ball_Un)
qed

lemma store_inv_add:
  assumes "store_inv s" "sint (NextID s) < 9223372036854775807"
  shows "store_inv (snd (AddTask lower s description dueDate prio))
         \<and> sint (NextID s) \<le> sint (NextID (snd (AddTask lower s description dueDate prio)))
         \<and> sint (NextID (snd (AddTask lower s description dueDate prio))) \<le> sint (NextID s) + 1"
proof -
  have lt: "\<forall>t\<in>set (Tasks s). sint (ID t) < sint (NextID s)"
    using assms by (simp add: store_inv_def list_all_iff)
  then have new: "NextID s \<notin> ID ` set (Tasks s)" by auto
  show ?thesis
    using assms lt new sint_succ[OF assms(2)]
    by (auto simp: AddTask_def Let_def store_inv_def list_all_iff split: option.splits)
qed

lemma store_inv_run:
  "length (filter is_add ops) < 9223372036854775807 \<Longrightarrow>
     store_inv (run_operations lower ops empty_store)
     \<and> sint (NextID (run_operations lower ops empty_store)) \<le> 1 + int (length (filter is_add ops))"
proof (induction ops rule: rev_induct)
  case Nil
  then show ?case by (simp add: run_operations_def empty_store_def store_inv_def)
next
  case (snoc x xs)
  define s where "s = run_operations lower xs empty_store"
  have r: "run_operations lower (xs @ [x]) empty_store = apply_operation lower s x"
    by (simp add: run_operations_def s_def)
  from snoc have IH: "store_inv s" "sint (NextID s) \<le> 1 + int (length (filter is_add xs))"
    by (simp_all add: s_def)
  show ?case
  proof (cases x)
    case (OpAddTask d due p)
    with snoc.prems have "int (length (filter is_add xs)) + 1 < 9223372036854775807" by simp
    with IH(2) have "sint (NextID s) < 9223372036854775807" by linarith
    from store_inv_add[OF IH(1) this, of lower d due p] IH(2) OpAddTask show ?thesis
      unfolding r by simp
  next
    case (OpDeleteTaskByID i)
    with store_inv_delete[OF IH(1), of i] IH(2) show ?thesis unfolding r by simp
  next
    case (OpCompleteTask i)
    with store_inv_completion(2)[OF IH(1), of i] IH(2) show ?thesis unfolding r by simp
  next
    case (OpUpdateTaskCompletion i c)
    with store_inv_completion(1)[OF IH(1), of i c] IH(2) show ?thesis unfolding r by simp
  qed
qed

text \<open>
  Claim C8, as amended. From the empty store, every sequence of \<open>AddTask\<close>, deletion by
  ID and completion updates that calls \<open>AddTask\<close> fewer than \<open>2 ^ 63 - 1\<close> times leads to
  a store whose task IDs are pairwise distinct and all below \<open>NextID\<close>.
\<close>

theorem store_inv_preserved:
  "length (filter is_add ops) < 9223372036854775807 \<Longrightarrow> store_inv (run_operations lower ops empty_store)"
  using store_inv_run by blast

theorem store_inv_preserved_witness:
  "length (filter is_add short_run) < 9223372036854775807
   \<and> store_inv (run_operations ascii_only short_run empty_store)
   \<and> map ID (Tasks (run_operations ascii_only short_run empty_store)) = [2, 3]
   \<and> NextID (run_operations ascii_only short_run empty_store) = 4"
proof -
  have l: "length (filter is_add short_run) < 9223372036854775807" by (simp add: short_run_def)
  have r: "map ID (Tasks (run_operations ascii_only short_run empty_store)) = [2, 3]
    \<and> NextID (run_operations ascii_only short_run empty_store) = 4"
    by code_simp
  show ?thesis using store_inv_preserved[OF l, of ascii_only] l r by simp
qed

lemma add_then_delete_run:
  "run_operations lower (concat (map add_then_delete [0..<n])) empty_store
     = \<lparr>Tasks = [], NextID = of_nat (Suc n)\<rparr>"
proof (induction n)
  case 0
  then show ?case by (simp add: run_operations_def empty_store_def)
next
  case (Suc n)
  have v: "ValidateDate [] = None" "ValidatePriority lower ''low'' = None"
    "ToLower lower ''low'' = ''low''"
    by (simp_all add: ValidateDate_def ValidatePriority_def ToLower_def validPriorities_def
          is_ascii_def lower_char_def Let_def)
  have "run_operations lower (add_then_delete n) \<lparr>Tasks = [], NextID = of_nat (Suc n)\<rparr>
      = \<lparr>Tasks = [], NextID = of_nat (Suc (Suc n))\<rparr>"
    by (simp add: run_operations_def add_then_delete_def AddTask_def deleteTaskByID_def v Let_def)
  with Suc show ?case by (simp add: run_operations_append)
qed

lemma wrapping_run_wraps:
  "run_operations lower wrapping_run empty_store
     = \<lparr>Tasks = [\<lparr>ID = 9223372036854775807, Description = ''t'', DueDate = [],
                   Priority = ''low'', Completed = False\<rparr>],
        NextID = - 9223372036854775808\<rparr>"
proof -
  have v: "ValidateDate [] = None" "ValidatePriority lower ''low'' = None"
    "ToLower lower ''low'' = ''low''"
    by (simp_all add: ValidateDate_def ValidatePriority_def ToLower_def validPriorities_def
          is_ascii_def lower_char_def Let_def)
  have a: "run_operations lower (concat (map add_then_delete [0..<9223372036854775806])) empty_store
      = \<lparr>Tasks = [], NextID = 9223372036854775807\<rparr>"
    unfolding add_then_delete_run by simp
  show ?thesis
    unfolding wrapping_run_def run_operations_append a
    by (simp add: run_operations_def AddTask_def v Let_def)
qed

text \<open>
  Claim C8, as stated, fails: the counter is a 64-bit integer and \<open>AddTask\<close> does not
  guard the increment. After \<open>2 ^ 63 - 1\<close> calls of \<open>AddTask\<close> the last task has the
  largest ID there is and \<open>NextID\<close> has wrapped to the smallest integer.
\<close>

theorem store_inv_counterexample:
  "run_operations ascii_only wrapping_run empty_store
     = \<lparr>Tasks = [\<lparr>ID = 9223372036854775807, Description = ''t'', DueDate = [],
                   Priority = ''low'', Completed = False\<rparr>],
        NextID = - 9223372036854775808\<rparr>
   \<and> \<not> store_inv (run_operations ascii_only wrapping_run empty_store)"
  unfolding wrapping_run_wraps by (simp add: store_inv_def)

section \<open>Filtering and ordering\<close>


lemma taskLess_sort_key: "taskLess a b = (sort_key a < sort_key b)"
  by (auto simp: taskLess_def sort_key_def)

lemma strict_weak_order_taskLess: "strict_weak_order taskLess"
  unfolding strict_weak_order_def taskLess_sort_key
  by (intro conjI allI impI) (auto simp: not_less)













text \<open>
  The overdue filter makes \<open>filterTasks\<close> skip the time filter, whatever the sort
  function and the Unicode tables: the task that was due a week ago is returned.
\<close>

lemma week_old_task_returned:
  assumes "sort_Slice_contract sort_Slice"
  shows "filterTasks sort_Slice lower [week_old_task] overdue_this_week noon_utc = [week_old_task]"
proof -
  have o: "isOverdue week_old_task noon_utc" by code_simp
  have f: "filter_loop lower [week_old_task] overdue_this_week noon_utc = [week_old_task]"
    using o by (simp add: overdue_this_week_def week_old_task_def)
  from assms strict_weak_order_taskLess
  have "mset (sort_Slice taskLess [week_old_task]) = mset [week_old_task]"
    unfolding sort_Slice_contract_def by blast
  then have "sort_Slice taskLess [week_old_task] = [week_old_task]"
    by simp
  then show ?thesis unfolding filterTasks_def f .
qed


section \<open>Duplicates\<close>

lemma duplicates_loop_step:
  "duplicates_loop lower (t # ts) seen dups =
     (if Completed t then duplicates_loop lower ts seen dups
      else case seen (task_key lower t) of
             None \<Rightarrow> duplicates_loop lower ts (seen(task_key lower t \<mapsto> t)) dups
           | Some e \<Rightarrow>
               if shouldKeepExisting e t then duplicates_loop lower ts seen (dups @ [t])
               else duplicates_loop lower ts (seen(task_key lower t \<mapsto> t)) (dups @ [e]))"
  by (simp add: Let_def task_key_def split: option.splits)

text \<open>
  The result of the loop, position by position. After the loop has looked at a pending
  task \<open>t\<close>, the entry of \<open>seen\<close> at its key is the task kept from the old entry and \<open>t\<close>.
\<close>

lemma kept_from_Nil: "kept_from lower c k [] = c"
  by (simp add: kept_from_def)

lemma kept_from_Cons:
  "kept_from lower c k (t # ts) =
     kept_from lower (if \<not> Completed t \<and> task_key lower t = k then keep_step c t else c) k ts"
  by (simp add: kept_from_def)

lemma reported_from_0:
  "reported_from lower seen (t # ts) 0 =
     (if Completed t then []
      else case seen (task_key lower t) of
             None \<Rightarrow> []
           | Some e \<Rightarrow> [if shouldKeepExisting e t then t else e])"
  by (simp add: reported_from_def kept_from_Nil)

lemma reported_from_Suc:
  assumes "\<And>k. seen' k = (if \<not> Completed t \<and> task_key lower t = k then keep_step (seen k) t else seen k)"
  shows "reported_from lower seen (t # ts) (Suc i) = reported_from lower seen' ts i"
  unfolding reported_from_def by (simp add: kept_from_Cons assms Let_def)

lemma upt_Suc_map: "[0..<Suc n] = 0 # map Suc [0..<n]"
  by (simp add: upt_conv_Cons map_Suc_upt del: upt_Suc)

lemma duplicates_loop_reported:
  "duplicates_loop lower ts seen dups
     = dups @ concat (map (reported_from lower seen ts) [0..<length ts])"
proof (induction ts arbitrary: seen dups)
  case Nil
  then show ?case by simp
next
  case (Cons t ts)
  let ?k = "task_key lower t"
  have split: "concat (map (reported_from lower seen (t # ts)) [0..<length (t # ts)])
      = reported_from lower seen (t # ts) 0
        @ concat (map (\<lambda>i. reported_from lower seen (t # ts) (Suc i)) [0..<length ts])"
    by (simp add: upt_Suc_map comp_def del: upt_Suc)
  show ?case
  proof (cases "Completed t")
    case True
    have st: "duplicates_loop lower (t # ts) seen dups = duplicates_loop lower ts seen dups"
      using True by (simp only: duplicates_loop_step if_True)
    have s: "\<And>i. reported_from lower seen (t # ts) (Suc i) = reported_from lower seen ts i"
      by (rule reported_from_Suc) (simp add: True)
    show ?thesis unfolding st split s Cons.IH using True by (simp add: reported_from_0)
  next
    case False
    show ?thesis
    proof (cases "seen ?k")
      case None
      have st: "duplicates_loop lower (t # ts) seen dups
          = duplicates_loop lower ts (seen(?k \<mapsto> t)) dups"
        using False None by (simp only: duplicates_loop_step if_False option.case)
      have s: "\<And>i. reported_from lower seen (t # ts) (Suc i)
          = reported_from lower (seen(?k \<mapsto> t)) ts i"
        by (rule reported_from_Suc) (auto simp: False None)
      show ?thesis unfolding st split s Cons.IH using False None by (simp add: reported_from_0)
    next
      case (Some e)
      show ?thesis
      proof (cases "shouldKeepExisting e t")
        case True
        have st: "duplicates_loop lower (t # ts) seen dups
            = duplicates_loop lower ts seen (dups @ [t])"
          using False Some True by (simp only: duplicates_loop_step if_False if_True option.case)
        have s: "\<And>i. reported_from lower seen (t # ts) (Suc i) = reported_from lower seen ts i"
          by (rule reported_from_Suc) (auto simp: False Some True)
        show ?thesis
          unfolding st split s Cons.IH using False Some True by (simp add: reported_from_0)
      next
        case no: False
        have st: "duplicates_loop lower (t # ts) seen dups
            = duplicates_loop lower ts (seen(?k \<mapsto> t)) (dups @ [e])"
          using False Some no by (simp only: duplicates_loop_step if_False option.case)
        have s: "\<And>i. reported_from lower seen (t # ts) (Suc i)
            = reported_from lower (seen(?k \<mapsto> t)) ts i"
          by (rule reported_from_Suc) (auto simp: False Some no)
        show ?thesis
          unfolding st split s Cons.IH using False Some no by (simp add: reported_from_0)
      qed
    qed
  qed
qed

lemma findDuplicateTasks_reported:
  "findDuplicateTasks lower ts = concat (map (reported_at lower ts) [0..<length ts])"
proof -
  have "reported_at lower ts = reported_from lower Map.empty ts"
    by (rule ext) (simp add: reported_at_def)
  then show ?thesis
    using duplicates_loop_reported[of lower ts Map.empty "[]"] by (simp add: findDuplicateTasks_def)
qed

text \<open>The task that is kept is a pending task of the list with the key asked for.\<close>

lemma keep_step_cases: "keep_step c t = Some t \<or> keep_step c t = c"
  by (cases c) auto

lemma kept_from_cases:
  "kept_from lower c k ts = c
   \<or> (\<exists>e\<in>set ts. kept_from lower c k ts = Some e \<and> \<not> Completed e \<and> task_key lower e = k)"
proof (induction ts arbitrary: c)
  case Nil
  then show ?case by (simp add: kept_from_Nil)
next
  case (Cons t ts)
  show ?case
  proof (cases "\<not> Completed t \<and> task_key lower t = k")
    case True
    then have e: "kept_from lower c k (t # ts) = kept_from lower (keep_step c t) k ts"
      by (simp add: kept_from_Cons)
    from Cons.IH[of "keep_step c t"] keep_step_cases[of c t] True show ?thesis
      unfolding e by auto
  next
    case False
    then have e: "kept_from lower c k (t # ts) = kept_from lower c k ts"
      by (auto simp: kept_from_Cons)
    from Cons.IH[of c] show ?thesis unfolding e by auto
  qed
qed

lemma kept_from_None_Some:
  assumes "kept_from lower None k ts = Some e"
  shows "e \<in> set ts \<and> \<not> Completed e \<and> task_key lower e = k"
  using kept_from_cases[of lower None k ts] assms by auto

lemma keep_step_not_None: "keep_step c t \<noteq> None"
  by (cases c) auto

lemma kept_from_Some_start: "c \<noteq> None \<Longrightarrow> kept_from lower c k ts \<noteq> None"
proof (induction ts arbitrary: c)
  case Nil
  then show ?case by (simp add: kept_from_Nil)
next
  case (Cons t ts)
  from Cons.IH[of "keep_step c t"] Cons.IH[of c] Cons.prems keep_step_not_None[of c t]
  show ?case unfolding kept_from_Cons by (cases "\<not> Completed t \<and> task_key lower t = k") auto
qed

lemma kept_from_not_None:
  assumes "t \<in> set ts" "\<not> Completed t" "task_key lower t = k"
  shows "kept_from lower c k ts \<noteq> None"
  using assms
proof (induction ts arbitrary: c)
  case Nil
  then show ?case by simp
next
  case (Cons x xs)
  show ?case
  proof (cases "\<not> Completed x \<and> task_key lower x = k")
    case True
    then show ?thesis
      by (simp add: kept_from_Cons kept_from_Some_start keep_step_not_None)
  next
    case False
    with Cons.prems have "t \<in> set xs" by auto
    from Cons.IH[OF this Cons.prems(2,3)] False show ?thesis
      by (auto simp: kept_from_Cons)
  qed
qed

lemma reported_at_cases:
  assumes "x \<in> set (reported_at lower ts i)" "i < length ts"
  shows "\<exists>j<i. \<not> Completed (ts ! i) \<and> \<not> Completed (ts ! j)
            \<and> task_key lower (ts ! j) = task_key lower (ts ! i)
            \<and> (x = ts ! i \<or> x = ts ! j)"
proof -
  let ?t = "ts ! i"
  from assms(1) have p: "\<not> Completed ?t"
    by (auto simp: reported_at_def reported_from_def Let_def split: if_splits)
  have "\<exists>e. kept_from lower None (task_key lower ?t) (take i ts) = Some e \<and> (x = ?t \<or> x = e)"
  proof (cases "kept_from lower None (task_key lower ?t) (take i ts)")
    case None
    with assms(1) p show ?thesis by (simp add: reported_at_def reported_from_def Let_def)
  next
    case (Some e)
    with assms(1) p show ?thesis
      by (auto simp: reported_at_def reported_from_def Let_def split: if_splits)
  qed
  then obtain e where e: "kept_from lower None (task_key lower ?t) (take i ts) = Some e"
    and x: "x = ?t \<or> x = e" by blast
  from kept_from_None_Some[OF e]
  have m: "e \<in> set (take i ts)" and pe: "\<not> Completed e" and ke: "task_key lower e = task_key lower ?t"
    by simp_all
  from m obtain j where j: "j < length (take i ts)" "take i ts ! j = e"
    by (auto simp: in_set_conv_nth)
  then have "j < i" "ts ! j = e" using assms(2) by simp_all
  then show ?thesis using p pe ke x by auto
qed


lemma reported_at_length:
  assumes "i < length ts"
  shows "length (reported_at lower ts i) =
     (if \<not> Completed (ts ! i)
         \<and> (\<exists>j<i. \<not> Completed (ts ! j) \<and> task_key lower (ts ! j) = task_key lower (ts ! i))
      then 1 else 0)"
proof (cases "Completed (ts ! i)")
  case True
  then show ?thesis by (simp add: reported_at_def reported_from_def)
next
  case False
  let ?k = "task_key lower (ts ! i)"
  show ?thesis
  proof (cases "kept_from lower None ?k (take i ts)")
    case None
    have "\<not> (\<exists>j<i. \<not> Completed (ts ! j) \<and> task_key lower (ts ! j) = ?k)"
    proof
      assume "\<exists>j<i. \<not> Completed (ts ! j) \<and> task_key lower (ts ! j) = ?k"
      then obtain j where j: "j < i" "\<not> Completed (ts ! j)" "task_key lower (ts ! j) = ?k"
        by blast
      from j(1) assms have "ts ! j \<in> set (take i ts)"
        by (auto simp: in_set_conv_nth intro!: exI[of _ j])
      from kept_from_not_None[OF this j(2,3), of None] None show False by simp
    qed
    then show ?thesis using False None by (simp add: reported_at_def reported_from_def)
  next
    case (Some e)
    from kept_from_None_Some[OF Some]
    have m: "e \<in> set (take i ts)" and pe: "\<not> Completed e" and ke: "task_key lower e = ?k"
      by simp_all
    from m obtain j where "j < length (take i ts)" "take i ts ! j = e"
      by (auto simp: in_set_conv_nth)
    then have "j < i" "ts ! j = e" using assms by simp_all
    then have "\<exists>j<i. \<not> Completed (ts ! j) \<and> task_key lower (ts ! j) = ?k"
      using pe ke by auto
    then show ?thesis using False Some by (simp add: reported_at_def reported_from_def Let_def)
  qed
qed

lemma findDuplicateTasks_cases:
  assumes "x \<in> set (findDuplicateTasks lower ts)"
  shows "\<exists>i<length ts. \<exists>j<i. \<not> Completed (ts ! i) \<and> \<not> Completed (ts ! j)
            \<and> task_key lower (ts ! j) = task_key lower (ts ! i)
            \<and> (x = ts ! i \<or> x = ts ! j)"
proof -
  from assms obtain i where i: "i < length ts" "x \<in> set (reported_at lower ts i)"
    unfolding findDuplicateTasks_reported by auto
  from reported_at_cases[OF i(2,1)] i(1) show ?thesis by blast
qed

lemma findDuplicateTasks_subset:
  "set (findDuplicateTasks lower ts) \<subseteq> {t \<in> set ts. \<not> Completed t}"
proof
  fix x assume "x \<in> set (findDuplicateTasks lower ts)"
  from findDuplicateTasks_cases[OF this] obtain i j where
    "i < length ts" "j < i" "\<not> Completed (ts ! i)" "\<not> Completed (ts ! j)" "x = ts ! i \<or> x = ts ! j"
    by blast
  from this(1,2) have "j < length ts" by simp
  with \<open>i < length ts\<close> \<open>\<not> Completed (ts ! i)\<close> \<open>\<not> Completed (ts ! j)\<close> \<open>x = ts ! i \<or> x = ts ! j\<close>
  show "x \<in> {t \<in> set ts. \<not> Completed t}" by auto
qed

lemma duplicates_loop_length:
  "length (duplicates_loop lower ts seen dups) + card (set (pending_keys lower ts) - dom seen)
     = length dups + length (pending_keys lower ts)"
proof (induction ts arbitrary: seen dups)
  case Nil
  then show ?case by (simp add: pending_keys_def)
next
  case (Cons t ts)
  let ?k = "task_key lower t"
  let ?K = "pending_keys lower ts"
  show ?case
  proof (cases "Completed t")
    case True
    have "duplicates_loop lower (t # ts) seen dups = duplicates_loop lower ts seen dups"
      using True by (simp only: duplicates_loop_step if_True)
    moreover have "pending_keys lower (t # ts) = ?K" using True by (simp add: pending_keys_def)
    ultimately show ?thesis using Cons.IH[of seen dups] by simp
  next
    case False
    have pk: "pending_keys lower (t # ts) = ?k # ?K"
      using False by (simp add: pending_keys_def)
    show ?thesis
    proof (cases "seen ?k")
      case None
      have st: "duplicates_loop lower (t # ts) seen dups
          = duplicates_loop lower ts (seen(?k \<mapsto> t)) dups"
        using False None by (simp only: duplicates_loop_step if_False option.case)
      have IH: "length (duplicates_loop lower ts (seen(?k \<mapsto> t)) dups)
            + card (set ?K - dom (seen(?k \<mapsto> t))) = length dups + length ?K"
        by (rule Cons.IH)
      have "?k \<notin> dom seen" using None by auto
      then have "set (?k # ?K) - dom seen = insert ?k (set ?K - dom (seen(?k \<mapsto> t)))"
        by auto
      moreover have "?k \<notin> set ?K - dom (seen(?k \<mapsto> t))" by simp
      moreover have "finite (set ?K - dom (seen(?k \<mapsto> t)))" by simp
      ultimately have "card (set (?k # ?K) - dom seen)
          = Suc (card (set ?K - dom (seen(?k \<mapsto> t))))"
        by (metis card_insert_disjoint)
      then show ?thesis unfolding st pk using IH by simp
    next
      case (Some e)
      then have d: "?k \<in> dom seen" by auto
      then have eq: "set (?k # ?K) - dom seen = set ?K - dom seen"
        and eq': "dom (seen(?k \<mapsto> t)) = dom seen"
        by auto
      show ?thesis
      proof (cases "shouldKeepExisting e t")
        case True
        have st: "duplicates_loop lower (t # ts) seen dups
            = duplicates_loop lower ts seen (dups @ [t])"
          using False Some True by (simp only: duplicates_loop_step if_False if_True option.case)
        have "length (duplicates_loop lower ts seen (dups @ [t])) + card (set ?K - dom seen)
            = length (dups @ [t]) + length ?K"
          by (rule Cons.IH)
        then show ?thesis unfolding st pk eq by simp
      next
        case no: False
        have st: "duplicates_loop lower (t # ts) seen dups
            = duplicates_loop lower ts (seen(?k \<mapsto> t)) (dups @ [e])"
          using False Some no by (simp only: duplicates_loop_step if_False option.case)
        have "length (duplicates_loop lower ts (seen(?k \<mapsto> t)) (dups @ [e]))
              + card (set ?K - dom (seen(?k \<mapsto> t))) = length (dups @ [e]) + length ?K"
          by (rule Cons.IH)
        then show ?thesis unfolding st pk eq eq' by simp
      qed
    qed
  qed
qed

text \<open>
  Claim C2, as amended. \<open>findDuplicateTasks\<close> does not consult the similarity score: it
  compares the normalised descriptions (trimmed, lower-cased, one pass that replaces two
  spaces by one) of the pending tasks for equality. Of a pair of tasks one is reported
  exactly when both are pending and their normalised descriptions are equal, and it is
  the second one if \<open>shouldKeepExisting\<close> says so, otherwise the first. Of a list, the
  result is, position by position, what \<open>reported_at\<close> tells: a position contributes one
  task exactly when its task is pending and an earlier pending task has the same
  normalised description, and that task is the one at the position if the task kept so
  far for that description is to be kept, otherwise the kept one. So every reported
  task is a pending task that shares its normalised description with a pending task at
  another position; as many tasks are reported as there are pending tasks beyond the
  number of different normalised descriptions among them, and none exactly when these
  descriptions are pairwise different.
\<close>

theorem findDuplicateTasks_normalized:
  "findDuplicateTasks lower [a, b] =
     (if \<not> Completed a \<and> \<not> Completed b
         \<and> normalize_description lower (Description a) = normalize_description lower (Description b)
      then [if shouldKeepExisting a b then b else a] else [])
   \<and> findDuplicateTasks lower ts = concat (map (reported_at lower ts) [0..<length ts])
   \<and> (\<forall>i<length ts. length (reported_at lower ts i) =
         (if \<not> Completed (ts ! i)
             \<and> (\<exists>j<i. \<not> Completed (ts ! j)
                    \<and> normalize_description lower (Description (ts ! j))
                        = normalize_description lower (Description (ts ! i)))
          then 1 else 0))
   \<and> (\<forall>x\<in>set (findDuplicateTasks lower ts).
         \<exists>i<length ts. \<exists>j<i. \<not> Completed (ts ! i) \<and> \<not> Completed (ts ! j)
            \<and> normalize_description lower (Description (ts ! j))
                = normalize_description lower (Description (ts ! i))
            \<and> (x = ts ! i \<or> x = ts ! j))
   \<and> set (findDuplicateTasks lower ts) \<subseteq> {t \<in> set ts. \<not> Completed t}
   \<and> length (findDuplicateTasks lower ts) + card (set (pending_keys lower ts))
       = length (pending_keys lower ts)
   \<and> (findDuplicateTasks lower ts = []) = distinct (pending_keys lower ts)"
proof -
  have p: "findDuplicateTasks lower [a, b] =
     (if \<not> Completed a \<and> \<not> Completed b
         \<and> normalize_description lower (Description a) = normalize_description lower (Description b)
      then [if shouldKeepExisting a b then b else a] else [])"
    by (simp add: findDuplicateTasks_def Let_def)
  have r: "findDuplicateTasks lower ts = concat (map (reported_at lower ts) [0..<length ts])"
    by (rule findDuplicateTasks_reported)
  have n: "\<forall>i<length ts. length (reported_at lower ts i) =
         (if \<not> Completed (ts ! i)
             \<and> (\<exists>j<i. \<not> Completed (ts ! j)
                    \<and> normalize_description lower (Description (ts ! j))
                        = normalize_description lower (Description (ts ! i)))
          then 1 else 0)"
    using reported_at_length[of _ ts lower] unfolding task_key_def by blast
  have c: "\<forall>x\<in>set (findDuplicateTasks lower ts).
         \<exists>i<length ts. \<exists>j<i. \<not> Completed (ts ! i) \<and> \<not> Completed (ts ! j)
            \<and> normalize_description lower (Description (ts ! j))
                = normalize_description lower (Description (ts ! i))
            \<and> (x = ts ! i \<or> x = ts ! j)"
    using findDuplicateTasks_cases[of _ lower ts] unfolding task_key_def by blast
  have s: "set (findDuplicateTasks lower ts) \<subseteq> {t \<in> set ts. \<not> Completed t}"
    by (rule findDuplicateTasks_subset)
  have l: "length (findDuplicateTasks lower ts) + card (set (pending_keys lower ts))
      = length (pending_keys lower ts)"
    using duplicates_loop_length[of lower ts Map.empty "[]"] by (simp add: findDuplicateTasks_def)
  have "(findDuplicateTasks lower ts = [])
      = (card (set (pending_keys lower ts)) = length (pending_keys lower ts))"
    using l by auto
  also have "\<dots> = distinct (pending_keys lower ts)"
    using card_distinct distinct_card by blast
  finally have d: "(findDuplicateTasks lower ts = []) = distinct (pending_keys lower ts)" .
  from p r n c s l d show ?thesis by (intro conjI)
qed


theorem findDuplicateTasks_normalized_witness:
  "findDuplicateTasks ascii_only [described 1 ''  Buy milk '', described 2 ''buy milk'']
     = [described 2 ''buy milk'']
   \<and> findDuplicateTasks ascii_only
        [described 1 ''Buy milk'', (described 2 ''buy milk'')\<lparr>DueDate := ''2025-01-10''\<rparr>]
       = [described 1 ''Buy milk'']
   \<and> findDuplicateTasks ascii_only [described 1 ''buy milk'', described 2 ''buy milk today''] = []
   \<and> findDuplicateTasks ascii_only milk_list = [described 1 ''Buy milk'', described 4 ''BUY MILK'']
   \<and> map (reported_at ascii_only milk_list) [0..<length milk_list]
       = [[], [], [described 1 ''Buy milk''], [described 4 ''BUY MILK'']]"
proof -
  have n: "normalize_description ascii_only ''  Buy milk '' = ''buy milk''"
    "normalize_description ascii_only ''Buy milk'' = ''buy milk''"
    "normalize_description ascii_only ''buy milk'' = ''buy milk''"
    "normalize_description ascii_only ''buy milk today'' = ''buy milk today''"
    by code_simp+
  have k: "shouldKeepExisting (described 1 ''  Buy milk '') (described 2 ''buy milk'')"
    "\<not> shouldKeepExisting (described 1 ''Buy milk'')
        ((described 2 ''buy milk'')\<lparr>DueDate := ''2025-01-10''\<rparr>)"
    by code_simp+
  have r: "reported_at ascii_only milk_list 0 = []"
    "reported_at ascii_only milk_list (Suc 0) = []"
    "reported_at ascii_only milk_list 2 = [described 1 ''Buy milk'']"
    "reported_at ascii_only milk_list 3 = [described 4 ''BUY MILK'']"
    by code_simp+
  have u: "[0..<length milk_list] = [0, 1, 2, 3]"
    by code_simp
  have a: "findDuplicateTasks ascii_only [described 1 ''  Buy milk '', described 2 ''buy milk'']
     = [described 2 ''buy milk'']"
    using n k findDuplicateTasks_normalized[where lower = ascii_only
        and a = "described 1 ''  Buy milk ''" and b = "described 2 ''buy milk''" and ts = "[]",
        THEN conjunct1]
    by (simp add: described_def)
  have b: "findDuplicateTasks ascii_only
        [described 1 ''Buy milk'', (described 2 ''buy milk'')\<lparr>DueDate := ''2025-01-10''\<rparr>]
       = [described 1 ''Buy milk'']"
    using n k findDuplicateTasks_normalized[where lower = ascii_only
        and a = "described 1 ''Buy milk''"
        and b = "(described 2 ''buy milk'')\<lparr>DueDate := ''2025-01-10''\<rparr>" and ts = "[]",
        THEN conjunct1]
    by (simp add: described_def)
  have c: "findDuplicateTasks ascii_only [described 1 ''buy milk'', described 2 ''buy milk today''] = []"
    using n findDuplicateTasks_normalized[where lower = ascii_only
        and a = "described 1 ''buy milk''" and b = "described 2 ''buy milk today''" and ts = "[]",
        THEN conjunct1]
    by (simp add: described_def)
  have d: "findDuplicateTasks ascii_only milk_list
      = [described 1 ''Buy milk'', described 4 ''BUY MILK'']"
    using findDuplicateTasks_normalized[where lower = ascii_only and ts = milk_list,
        THEN conjunct2, THEN conjunct1]
    unfolding u by (simp add: r)
  have e: "map (reported_at ascii_only milk_list) [0..<length milk_list]
       = [[], [], [described 1 ''Buy milk''], [described 4 ''BUY MILK'']]"
    unfolding u by (simp add: r)
  from a b c d e show ?thesis by (intro conjI)
qed

text \<open>
  Claim C2, as stated, fails. The descriptions \<open>buy  milk\<close> (two spaces) and \<open>buy milk\<close>
  are scored alike in either direction, by two of two words matching (0.6 in Go), and
  are reported as duplicates; \<open>buy milk\<close> and \<open>milk buy\<close> are scored the same way in
  either direction and are not; \<open>buy milk today\<close> contains \<open>buy milk\<close>, which is the
  higher score 0.8 in Go, and the two are not reported either.
\<close>

theorem duplicates_not_by_similarity:
  "calculateSimilarityScore ascii_only ''buy  milk'' ''buy milk'' = Score_words 2 2
   \<and> calculateSimilarityScore ascii_only ''buy milk'' ''buy  milk'' = Score_words 2 2
   \<and> findDuplicateTasks ascii_only [described 1 ''buy  milk'', described 2 ''buy milk'']
        = [described 2 ''buy milk'']
   \<and> calculateSimilarityScore ascii_only ''buy milk'' ''milk buy'' = Score_words 2 2
   \<and> calculateSimilarityScore ascii_only ''milk buy'' ''buy milk'' = Score_words 2 2
   \<and> findDuplicateTasks ascii_only [described 2 ''buy milk'', described 3 ''milk buy''] = []
   \<and> calculateSimilarityScore ascii_only ''buy milk today'' ''buy milk'' = Score_contains
   \<and> findDuplicateTasks ascii_only [described 4 ''buy milk today'', described 2 ''buy milk''] = []"
  by code_simp

end
